theory Spec2Isabelle
  imports Main "HOL-Library.Word"
begin

section \<open>The player session of cmd/create-and-play/main.go\<close>

text \<open>
  The program opens one TCP connection per player, registers, joins a game and then
  answers betting turns: one all-in bet, folds afterwards. Everything the session does
  beyond computing is made explicit here: the global atomic counters and the standard
  output are a record that every function takes and returns, the connection is the list
  of payloads written to it so far, and what the network answers (whether a write
  succeeds, which line a read delivers, what the clock shows) is an argument of the
  function that asks for it.
\<close>

subsection \<open>Configuration\<close>

type_synonym int32 = "32 word"

definition numPlayersToCreate :: nat where
  "numPlayersToCreate = 1000000"

definition baseUsername :: string where
  "baseUsername = ''over-''"

definition basePassword :: string where
  "basePassword = ''password''"

text \<open>A \<open>time.Duration\<close> counts nanoseconds; \<open>gameActivityTimeout = 60 * time.Second\<close>.\<close>

definition second :: int where
  "second = 1000000000"

definition gameActivityTimeout :: int where
  "gameActivityTimeout = 60 * second"

definition verboseLogging :: bool where
  "verboseLogging = True"

subsection \<open>Messages\<close>

record RegistrationMsg =
  Username :: string
  Password :: string

text \<open>\<open>Amount *int\<close>: the nil pointer is \<open>None\<close>; \<open>pint\<close> yields a pointer to its argument.\<close>

record ActionMsg =
  Action :: string
  Amount :: "int option"

definition pint :: "int \<Rightarrow> int option" where
  "pint i = Some i"

record PlayerStateForBet =
  PlayerID :: string
  Chips :: int

record ActionPlayerBetFullState =
  Player :: PlayerStateForBet

text \<open>
  \<open>Event interface{}\<close> holds whatever JSON value the server sent; the program only
  prints it, so it is kept as the text of that value, \<open>None\<close> for the nil interface.
\<close>

record ServerResponse =
  Type :: string
  Event :: "string option"
  Code :: int
  Message :: string
  GameID :: string
  Stage :: string
  State :: ActionPlayerBetFullState
  MinimumBet :: int

subsection \<open>What json.Marshal produces\<close>

text \<open>
  A payload is the JSON object that \<open>json.Marshal\<close> builds from the struct and its
  tags, key by key in field order. A field tagged \<open>omitempty\<close> is left out when it is
  empty; for the pointer \<open>Amount\<close> that is the nil pointer only, so a pointer to 0 is
  written.

  The rendering of the object as bytes is the library's.
\<close>

datatype json = JString string | JNumber int | JObject "(string \<times> json) list"

fun json_field :: "string \<Rightarrow> json \<Rightarrow> json option" where
  "json_field k (JObject kvs) = map_of kvs k"
| "json_field k _ = None"

definition marshalRegistrationMsg :: "RegistrationMsg \<Rightarrow> json" where
  "marshalRegistrationMsg m =
     JObject [(''username'', JString (Username m)), (''password'', JString (Password m))]"

definition marshalActionMsg :: "ActionMsg \<Rightarrow> json" where
  "marshalActionMsg m =
     JObject ((''action'', JString (Action m)) #
       (case Amount m of None \<Rightarrow> [] | Some n \<Rightarrow> [(''amount'', JNumber n)]))"

text \<open>\<open>sendJSON\<close> takes \<open>data interface{}\<close>; the program passes these two types.\<close>

datatype outbound = Registration RegistrationMsg | ActionOut ActionMsg

fun marshal :: "outbound \<Rightarrow> json" where
  "marshal (Registration m) = marshalRegistrationMsg m"
| "marshal (ActionOut m) = marshalActionMsg m"

subsection \<open>What json.Unmarshal reads\<close>

text \<open>
  \<open>readServerMessage\<close> starts from \<open>var serverResp ServerResponse\<close>, the zero value,
  and \<open>json.Unmarshal\<close> assigns the fields that the line holds, in the order of the
  line, a later key over an earlier one; a nested object is read into the struct that is
  already there. A wire line is given as the fields the library finds in it: which key
  names which field (the library matches keys without regard to case) is the library's
  business, and a key that names no field, or whose value is null, is \<open>F_other\<close>.
  A line that is not JSON, or holds a value of the wrong type for its field, is
  \<open>Undecodable\<close>.
\<close>

datatype player_field = PF_player_id string | PF_chips int | PF_other

datatype state_field = SF_player "player_field list" | SF_other

datatype resp_field =
    F_type string
  | F_event string
  | F_code int
  | F_message string
  | F_game_id string
  | F_stage string
  | F_state "state_field list"
  | F_minimum_bet int
  | F_other

datatype wire_line = Undecodable | Object "resp_field list"

definition zeroPlayerStateForBet :: PlayerStateForBet where
  "zeroPlayerStateForBet = \<lparr>PlayerID = [], Chips = 0\<rparr>"

definition zeroServerResponse :: ServerResponse where
  "zeroServerResponse =
     \<lparr>Type = [], Event = None, Code = 0, Message = [], GameID = [], Stage = [],
      State = \<lparr>Player = zeroPlayerStateForBet\<rparr>, MinimumBet = 0\<rparr>"

fun setPlayerField :: "PlayerStateForBet \<Rightarrow> player_field \<Rightarrow> PlayerStateForBet" where
  "setPlayerField p (PF_player_id s) = p\<lparr>PlayerID := s\<rparr>"
| "setPlayerField p (PF_chips n) = p\<lparr>Chips := n\<rparr>"
| "setPlayerField p PF_other = p"

fun setStateField :: "ActionPlayerBetFullState \<Rightarrow> state_field \<Rightarrow> ActionPlayerBetFullState" where
  "setStateField s (SF_player fs) = s\<lparr>Player := foldl setPlayerField (Player s) fs\<rparr>"
| "setStateField s SF_other = s"

fun setField :: "ServerResponse \<Rightarrow> resp_field \<Rightarrow> ServerResponse" where
  "setField r (F_type s) = r\<lparr>Type := s\<rparr>"
| "setField r (F_event v) = r\<lparr>Event := Some v\<rparr>"
| "setField r (F_code n) = r\<lparr>Code := n\<rparr>"
| "setField r (F_message s) = r\<lparr>Message := s\<rparr>"
| "setField r (F_game_id s) = r\<lparr>GameID := s\<rparr>"
| "setField r (F_stage s) = r\<lparr>Stage := s\<rparr>"
| "setField r (F_state fs) = r\<lparr>State := foldl setStateField (State r) fs\<rparr>"
| "setField r (F_minimum_bet n) = r\<lparr>MinimumBet := n\<rparr>"
| "setField r F_other = r"

datatype go_error =
    ErrMarshal | ErrSetWriteDeadline | ErrWrite
  | ErrSetReadDeadline | ErrReadString | ErrUnmarshal

fun unmarshal :: "wire_line \<Rightarrow> go_error + ServerResponse" where
  "unmarshal Undecodable = Inl ErrUnmarshal"
| "unmarshal (Object fs) = Inr (foldl setField zeroServerResponse fs)"

subsection \<open>Session state, counters and output\<close>

text \<open>
  \<open>conn\<close> is the connection seen from the program: the payloads whose
  \<open>conn.Write\<close> returned without an error, oldest first. The \<open>reader\<close> over the same
  connection is the answer that each read receives as an argument.
\<close>

record PlayerSessionState =
  username :: string
  conn :: "json list"
  hasPerformedAllIn :: bool
  logPrefix :: string

datatype log_entry =
    LogErrorDialing
  | LogSuccessfullyRegistered
  | LogSuccessfullySentJoin
  | LogSessionEnded
  | LogErrorMarshalling
  | LogSending json
  | LogErrorSetWriteDeadline
  | LogErrorSendingData
  | LogErrorSetReadDeadline
  | LogErrorReadingLine
  | LogReceived wire_line
  | LogErrorUnmarshalling wire_line
  | LogRegistrationFailed int string
  | LogRegistrationUnexpected string
  | LogGameActivityTimeout
  | LogExitReadError go_error
  | LogMyTurn string int
  | LogCannotBet int
  | LogErrorSendingFold go_error
  | LogGoingAllIn int
  | LogErrorSendingAllIn go_error
  | LogAlreadyAllIn
  | LogTerminalEvent string
  | LogGameOverData "string option"
  | LogServerError int string
  | LogEmptyType ServerResponse

text \<open>The five package-level counters, each an \<open>int32\<close>, and the lines printed.\<close>

record globals =
  successfulRegistrations :: int32
  failedRegistrations :: int32
  gamesJoined :: int32
  allInsMade :: int32
  foldsMade :: int32
  stdout :: "(string \<times> log_entry) list"

definition logVerbose :: "PlayerSessionState \<Rightarrow> log_entry \<Rightarrow> globals \<Rightarrow> globals" where
  "logVerbose ps e g =
     (if verboseLogging \<or> numPlayersToCreate = 1
      then g\<lparr>stdout := stdout g @ [(logPrefix ps, e)]\<rparr>
      else g)"

subsection \<open>Sending and reading\<close>

text \<open>What the network does with one \<open>sendJSON\<close> call, and with one read.\<close>

datatype send_answer = SendOk | MarshalFails | SetWriteDeadlineFails | WriteFails

datatype read_answer = SetReadDeadlineFails | ReadStringFails | Line wire_line

definition sendJSON ::
  "PlayerSessionState \<Rightarrow> outbound \<Rightarrow> send_answer \<Rightarrow> globals
     \<Rightarrow> go_error option \<times> PlayerSessionState \<times> globals" where
  "sendJSON ps data a g =
     (if a = MarshalFails then (Some ErrMarshal, ps, logVerbose ps LogErrorMarshalling g)
      else
        let payload = marshal data;
            g1 = logVerbose ps (LogSending payload) g
        in if a = SetWriteDeadlineFails
           then (Some ErrSetWriteDeadline, ps, logVerbose ps LogErrorSetWriteDeadline g1)
           else if a = WriteFails
           then (Some ErrWrite, ps, logVerbose ps LogErrorSendingData g1)
           else (None, ps\<lparr>conn := conn ps @ [payload]\<rparr>, g1))"

definition readServerMessage ::
  "PlayerSessionState \<Rightarrow> read_answer \<Rightarrow> globals \<Rightarrow> (go_error + ServerResponse) \<times> globals" where
  "readServerMessage ps a g =
     (case a of
        SetReadDeadlineFails \<Rightarrow> (Inl ErrSetReadDeadline, logVerbose ps LogErrorSetReadDeadline g)
      | ReadStringFails \<Rightarrow> (Inl ErrReadString, logVerbose ps LogErrorReadingLine g)
      | Line l \<Rightarrow>
          let g1 = logVerbose ps (LogReceived l) g
          in (case unmarshal l of
                Inl err \<Rightarrow> (Inl err, logVerbose ps (LogErrorUnmarshalling l) g1)
              | Inr serverResp \<Rightarrow> (Inr serverResp, g1)))"

subsection \<open>Registering and joining\<close>

definition register ::
  "PlayerSessionState \<Rightarrow> string \<Rightarrow> send_answer \<Rightarrow> read_answer \<Rightarrow> globals
     \<Rightarrow> bool \<times> PlayerSessionState \<times> globals" where
  "register ps password sa ra g =
     (let regMsg = \<lparr>Username = username ps, Password = password\<rparr>
      in case sendJSON ps (Registration regMsg) sa g of
           (Some err, ps1, g1) \<Rightarrow>
             (False, ps1, g1\<lparr>failedRegistrations := failedRegistrations g1 + 1\<rparr>)
         | (None, ps1, g1) \<Rightarrow>
             (case readServerMessage ps1 ra g1 of
                (Inl err, g2) \<Rightarrow>
                  (False, ps1, g2\<lparr>failedRegistrations := failedRegistrations g2 + 1\<rparr>)
              | (Inr resp, g2) \<Rightarrow>
                  if Type resp = ''event_player_leaderboard_entry_start'' then (True, ps1, g2)
                  else if Code resp \<noteq> 0 then
                    let g3 = logVerbose ps1 (LogRegistrationFailed (Code resp) (Message resp)) g2
                    in (False, ps1, g3\<lparr>failedRegistrations := failedRegistrations g3 + 1\<rparr>)
                  else
                    let g3 = logVerbose ps1 (LogRegistrationUnexpected (Type resp)) g2
                    in (False, ps1, g3\<lparr>failedRegistrations := failedRegistrations g3 + 1\<rparr>)))"

definition joinMsg :: ActionMsg where
  "joinMsg = \<lparr>Action = ''join'', Amount = None\<rparr>"

definition joinGame ::
  "PlayerSessionState \<Rightarrow> send_answer \<Rightarrow> globals \<Rightarrow> bool \<times> PlayerSessionState \<times> globals" where
  "joinGame ps sa g =
     (case sendJSON ps (ActionOut joinMsg) sa g of
        (Some err, ps1, g1) \<Rightarrow> (False, ps1, g1)
      | (None, ps1, g1) \<Rightarrow> (True, ps1, g1))"

subsection \<open>The game loop\<close>

text \<open>
  One pass of the \<open>for\<close> loop of \<open>gameLoop\<close> sees the clock once, reads at most one
  line and sends at most one action. \<open>now\<close> is what the clock shows at the top of the
  pass, \<open>incoming\<close> what the read receives, \<open>outgoing\<close> what happens to the action
  if the pass sends one.
\<close>

record loop_obs =
  now :: int
  incoming :: read_answer
  outgoing :: send_answer

text \<open>\<open>time.Since(gameStartTime)\<close>, in nanoseconds.\<close>

definition since :: "int \<Rightarrow> int \<Rightarrow> int" where
  "since gameStartTime t = t - gameStartTime"

datatype loop_ctl = Continue | Return

definition foldMsg :: ActionMsg where
  "foldMsg = \<lparr>Action = ''bet'', Amount = pint (- 1)\<rparr>"

definition betMsg :: "int \<Rightarrow> ActionMsg" where
  "betMsg amountToBet = \<lparr>Action = ''bet'', Amount = pint amountToBet\<rparr>"

text \<open>The body of \<open>case "action_player_bet"\<close>.\<close>

definition onActionPlayerBet ::
  "ServerResponse \<Rightarrow> send_answer \<Rightarrow> PlayerSessionState \<Rightarrow> globals
     \<Rightarrow> loop_ctl \<times> PlayerSessionState \<times> globals" where
  "onActionPlayerBet resp sa ps g =
     (if PlayerID (Player (State resp)) = username ps then
        let g1 = logVerbose ps (LogMyTurn (Stage resp) (Chips (Player (State resp)))) g
        in if \<not> hasPerformedAllIn ps then
             let amountToBet = Chips (Player (State resp))
             in if amountToBet \<le> 0 then
                  let g2 = logVerbose ps (LogCannotBet amountToBet) g1
                  in (case sendJSON ps (ActionOut foldMsg) sa g2 of
                        (Some err, ps1, g3) \<Rightarrow>
                          (Return, ps1, logVerbose ps1 (LogErrorSendingFold err) g3)
                      | (None, ps1, g3) \<Rightarrow>
                          (Continue, ps1, g3\<lparr>foldsMade := foldsMade g3 + 1\<rparr>))
                else
                  let g2 = logVerbose ps (LogGoingAllIn amountToBet) g1
                  in (case sendJSON ps (ActionOut (betMsg amountToBet)) sa g2 of
                        (Some err, ps1, g3) \<Rightarrow>
                          (Return, ps1, logVerbose ps1 (LogErrorSendingAllIn err) g3)
                      | (None, ps1, g3) \<Rightarrow>
                          (Continue, ps1\<lparr>hasPerformedAllIn := True\<rparr>,
                           g3\<lparr>allInsMade := allInsMade g3 + 1\<rparr>))
           else
             let g2 = logVerbose ps LogAlreadyAllIn g1
             in (case sendJSON ps (ActionOut foldMsg) sa g2 of
                   (Some err, ps1, g3) \<Rightarrow>
                     (Return, ps1, logVerbose ps1 (LogErrorSendingFold err) g3)
                 | (None, ps1, g3) \<Rightarrow>
                     (Continue, ps1, g3\<lparr>foldsMade := foldsMade g3 + 1\<rparr>))
      else (Continue, ps, g))"

text \<open>
  The \<open>switch resp.Type\<close>, case by case in the order of the source. The cases
  \<open>event_pot_won\<close> and \<open>default\<close> have no statement, and in the case \<open>""\<close> the
  test for code 400 has an empty body.
\<close>

definition onResponse ::
  "ServerResponse \<Rightarrow> send_answer \<Rightarrow> PlayerSessionState \<Rightarrow> globals
     \<Rightarrow> loop_ctl \<times> PlayerSessionState \<times> globals" where
  "onResponse resp sa ps g =
     (if Type resp = ''action_player_bet'' then onActionPlayerBet resp sa ps g
      else if Type resp = ''event_game_over''
              \<or> Type resp = ''event_player_leaderboard_entry_end'' then
        let g1 = logVerbose ps (LogTerminalEvent (Type resp)) g;
            g2 = (if Type resp = ''event_game_over'' \<and> verboseLogging
                  then logVerbose ps (LogGameOverData (Event resp)) g1 else g1)
        in (Return, ps, g2)
      else if Type resp = ''event_pot_won'' then (Continue, ps, g)
      else if Type resp = [] then
        (if Code resp \<noteq> 0
         then (Continue, ps, logVerbose ps (LogServerError (Code resp) (Message resp)) g)
         else (Continue, ps, logVerbose ps (LogEmptyType resp) g))
      else (Continue, ps, g))"

definition gameLoopBody ::
  "int \<Rightarrow> loop_obs \<Rightarrow> PlayerSessionState \<Rightarrow> globals
     \<Rightarrow> loop_ctl \<times> PlayerSessionState \<times> globals" where
  "gameLoopBody gameStartTime ob ps g =
     (if since gameStartTime (now ob) > gameActivityTimeout
      then (Return, ps, logVerbose ps LogGameActivityTimeout g)
      else case readServerMessage ps (incoming ob) g of
             (Inl err, g1) \<Rightarrow> (Return, ps, logVerbose ps (LogExitReadError err) g1)
           | (Inr resp, g1) \<Rightarrow> onResponse resp (outgoing ob) ps g1)"

text \<open>
  The loop runs over the passes that the observations describe. \<open>Return\<close> in the
  result says that \<open>gameLoop\<close> has returned; \<open>Continue\<close> that the observations are
  used up and the loop is still running, in the state given.
\<close>

fun gameLoop ::
  "int \<Rightarrow> loop_obs list \<Rightarrow> PlayerSessionState \<Rightarrow> globals
     \<Rightarrow> loop_ctl \<times> PlayerSessionState \<times> globals" where
  "gameLoop gameStartTime [] ps g = (Continue, ps, g)"
| "gameLoop gameStartTime (ob # obs) ps g =
     (case gameLoopBody gameStartTime ob ps g of
        (Return, ps1, g1) \<Rightarrow> (Return, ps1, g1)
      | (Continue, ps1, g1) \<Rightarrow> gameLoop gameStartTime obs ps1 g1)"

subsection \<open>One player session, and all of them\<close>

text \<open>\<open>strconv.Itoa\<close>: decimal digits, a minus sign first for a negative number.\<close>

function digits10 :: "nat \<Rightarrow> string" where
  "digits10 n =
     (if n < 10 then [''0123456789'' ! n]
      else digits10 (n div 10) @ [''0123456789'' ! (n mod 10)])"
  by pat_completeness auto
termination
  by (relation "measure id") auto

definition Itoa :: "int \<Rightarrow> string" where
  "Itoa i = (if i < 0 then CHR ''-'' # digits10 (nat (- i)) else digits10 (nat i))"

text \<open>
  Everything the network answers to one session: whether the dial succeeds, the answers
  to the registration's write and read and to the write of the join, the clock at the
  entry of the game loop, and the passes of the loop.
\<close>

record session_answers =
  dialOk :: bool
  regSend :: send_answer
  regRead :: read_answer
  joinSend :: send_answer
  gameStart :: int
  passes :: "loop_obs list"

text \<open>
  The first component of the result says whether \<open>managePlayerSession\<close> has returned
  (with the deferred \<open>wg.Done\<close>); it has not when the game loop is still running at
  the end of the observations.
\<close>

definition managePlayerSession ::
  "int \<Rightarrow> session_answers \<Rightarrow> globals \<Rightarrow> bool \<times> PlayerSessionState \<times> globals" where
  "managePlayerSession ident a g =
     (let playerState =
            \<lparr>username = baseUsername @ Itoa ident, conn = [], hasPerformedAllIn = False,
             logPrefix = ''['' @ baseUsername @ Itoa ident @ ''] ''\<rparr>;
          password = basePassword @ Itoa ident
      in if \<not> dialOk a then
           let g1 = logVerbose playerState LogErrorDialing g
           in (True, playerState, g1\<lparr>failedRegistrations := failedRegistrations g1 + 1\<rparr>)
         else
           case register playerState password (regSend a) (regRead a) g of
             (False, ps1, g1) \<Rightarrow> (True, ps1, g1)
           | (True, ps1, g1) \<Rightarrow>
               let g2 = logVerbose ps1 LogSuccessfullyRegistered
                          (g1\<lparr>successfulRegistrations := successfulRegistrations g1 + 1\<rparr>)
               in (case joinGame ps1 (joinSend a) g2 of
                     (False, ps2, g3) \<Rightarrow> (True, ps2, g3)
                   | (True, ps2, g3) \<Rightarrow>
                       let g4 = logVerbose ps2 LogSuccessfullySentJoin
                                  (g3\<lparr>gamesJoined := gamesJoined g3 + 1\<rparr>)
                       in (case gameLoop (gameStart a) (passes a) ps2 g4 of
                             (Return, ps3, g5) \<Rightarrow>
                               (True, ps3, logVerbose ps3 LogSessionEnded g5)
                           | (Continue, ps3, g5) \<Rightarrow> (False, ps3, g5))))"

text \<open>
  \<open>main\<close> starts the sessions \<open>0, 1, ...\<close> as goroutines and waits for all of them
  before it prints the counters. The sessions share nothing but the counters (and the
  output), and each change of a counter is one \<open>atomic.AddInt32\<close>, so the counters
  after the wait are those of the sessions run one after the other, which is what
  \<open>runSessions\<close> does; \<open>net i\<close> is what the network answers to session \<open>i\<close>. The
  result is \<open>None\<close> when some session never returns: \<open>wg.Wait\<close> then blocks and no
  count is printed. The semaphore of \<open>maxConcurrentRegistrations\<close> slots decides when
  a session may start, not what it does, and is left out.
\<close>

primrec runSessions ::
  "nat \<Rightarrow> (nat \<Rightarrow> session_answers) \<Rightarrow> globals \<Rightarrow> globals option" where
  "runSessions 0 net g = Some g"
| "runSessions (Suc n) net g =
     (case runSessions n net g of
        None \<Rightarrow> None
      | Some g1 \<Rightarrow>
          (case managePlayerSession (int n) (net n) g1 of
             (True, ps, g2) \<Rightarrow> Some g2
           | (False, ps, g2) \<Rightarrow> None))"

definition zeroGlobals :: globals where
  "zeroGlobals =
     \<lparr>successfulRegistrations = 0, failedRegistrations = 0, gamesJoined = 0,
      allInsMade = 0, foldsMade = 0, stdout = []\<rparr>"

definition mainRun :: "(nat \<Rightarrow> session_answers) \<Rightarrow> globals option" where
  "mainRun net = runSessions numPlayersToCreate net zeroGlobals"

subsection \<open>Reading the state for the statements below\<close>

text \<open>The five counters side by side, to say that none of them changes.\<close>

definition counters :: "globals \<Rightarrow> int32 \<times> int32 \<times> int32 \<times> int32 \<times> int32" where
  "counters g =
     (successfulRegistrations g, failedRegistrations g, gamesJoined g, allInsMade g,
      foldsMade g)"

text \<open>
  The amount of a payload that is a bet action: the object with the key \<open>action\<close>
  holding \<open>bet\<close> and the key \<open>amount\<close> holding a number, and nothing else.
\<close>

fun betAmount :: "json \<Rightarrow> int option" where
  "betAmount (JObject [(k1, JString a), (k2, JNumber n)]) =
     (if k1 = ''action'' \<and> a = ''bet'' \<and> k2 = ''amount'' then Some n else None)"
| "betAmount _ = None"

text \<open>The payloads that the lines \<open>Sending: ...\<close> of an output show, oldest first.\<close>

fun sendingLines :: "(string \<times> log_entry) list \<Rightarrow> json list" where
  "sendingLines [] = []"
| "sendingLines ((pre, LogSending p) # es) = p # sendingLines es"
| "sendingLines (e # es) = sendingLines es"

text \<open>
  What a stretch of the game loop may change, from the state \<open>ps, g\<close> before it to
  \<open>ps1, g1\<close> after it: the name and the prefix stay, the flag is not cleared, the
  registration and join counters stay, the connection and the output only grow, and
  every payload that was written, or that a line \<open>Sending: ...\<close> shows, is a bet whose
  amount is positive or \<open>- 1\<close>; when the flag was set before, each is a fold, the
  all-in counter stays and the fold counter counts the folds written.
\<close>

definition loopEffect ::
  "PlayerSessionState \<Rightarrow> globals \<Rightarrow> PlayerSessionState \<Rightarrow> globals \<Rightarrow> bool" where
  "loopEffect ps g ps1 g1 \<longleftrightarrow>
     username ps1 = username ps \<and> logPrefix ps1 = logPrefix ps
   \<and> (hasPerformedAllIn ps \<longrightarrow> hasPerformedAllIn ps1)
   \<and> successfulRegistrations g1 = successfulRegistrations g
   \<and> failedRegistrations g1 = failedRegistrations g
   \<and> gamesJoined g1 = gamesJoined g
   \<and> (\<exists>new. conn ps1 = conn ps @ new
         \<and> (\<forall>p\<in>set new. \<exists>n. betAmount p = Some n \<and> (0 < n \<or> n = - 1))
         \<and> (hasPerformedAllIn ps \<longrightarrow>
              (\<forall>p\<in>set new. betAmount p = Some (- 1))
            \<and> allInsMade g1 = allInsMade g
            \<and> foldsMade g1 = foldsMade g + of_nat (length new)))
   \<and> (\<exists>lg. stdout g1 = stdout g @ lg
         \<and> (\<forall>p\<in>set (sendingLines lg). \<exists>n. betAmount p = Some n \<and> (0 < n \<or> n = - 1))
         \<and> (hasPerformedAllIn ps \<longrightarrow> (\<forall>p\<in>set (sendingLines lg). betAmount p = Some (- 1))))"

text \<open>
  Whether the registration of a session is accepted: the dial and the write succeed,
  and the line read decodes to a response of type
  \<open>event_player_leaderboard_entry_start\<close>.
\<close>

definition registrationAccepted :: "session_answers \<Rightarrow> bool" where
  "registrationAccepted a \<longleftrightarrow>
     dialOk a \<and> regSend a = SendOk
   \<and> (case regRead a of
        Line l \<Rightarrow>
          (case unmarshal l of
             Inr resp \<Rightarrow> Type resp = ''event_player_leaderboard_entry_start''
           | Inl err \<Rightarrow> False)
      | _ \<Rightarrow> False)"

text \<open>How many of the sessions \<open>0, ..., n - 1\<close> have their registration accepted.\<close>

definition acceptedCount :: "nat \<Rightarrow> (nat \<Rightarrow> session_answers) \<Rightarrow> nat" where
  "acceptedCount n net = length (filter (\<lambda>i. registrationAccepted (net i)) [0..<n])"

text \<open>
  Whether the passes of a session go on until the clock shows more than
  \<open>gameActivityTimeout\<close> since the entry into the game loop.
\<close>

definition deadlineComes :: "session_answers \<Rightarrow> bool" where
  "deadlineComes a \<longleftrightarrow>
     list_ex (\<lambda>ob. gameActivityTimeout < since (gameStart a) (now ob)) (passes a)"

text \<open>
  The session state that \<open>managePlayerSession\<close> starts from, and the two payloads it
  sends before the game loop.
\<close>

definition initialState :: "int \<Rightarrow> PlayerSessionState" where
  "initialState ident =
     \<lparr>username = baseUsername @ Itoa ident, conn = [], hasPerformedAllIn = False,
      logPrefix = ''['' @ baseUsername @ Itoa ident @ ''] ''\<rparr>"

definition registrationPayload :: "int \<Rightarrow> json" where
  "registrationPayload ident =
     JObject [(''username'', JString (baseUsername @ Itoa ident)),
              (''password'', JString (basePassword @ Itoa ident))]"

definition joinPayload :: json where
  "joinPayload = JObject [(''action'', JString ''join'')]"

section \<open>The registration-only program (src/unnamed/part_002)\<close>




section \<open>The attack workers of the duration-bounded variant (src/unnamed/part_001)\<close>

text \<open>
  \<open>main\<close> starts \<open>numAttackers\<close> (5000) goroutines that request one URL in a loop, waits
  on a one-second ticker until the clock is after \<open>attackEndTime\<close>, closes the one
  channel \<open>stopSignal\<close> that all workers share, and waits for the workers. The run is
  a sequence of steps of \<open>main\<close> and of the workers, in any order: the state holds
  whether the channel is closed, where each worker stands in its loop, and the three
  counters, each an \<open>int64\<close>.
\<close>

type_synonym int64 = "64 word"

definition attackDurationSeconds :: int where
  "attackDurationSeconds = 30"

text \<open>
  A worker is at the \<open>select\<close> at the top of its loop, or inside \<open>client.Get\<close>
  with a request in flight, or it has returned.
\<close>

datatype worker_pc = AtSelect | InFlight | Returned

datatype get_result = GetError | StatusCode int

text \<open>
  The steps: the ticker fires and \<open>main\<close> reads the clock; worker \<open>i\<close> runs its
  \<open>select\<close>; the request of worker \<open>i\<close> comes back, with an error or a status.
\<close>

datatype attack_event = Tick int | Selects nat | Completes nat get_result

record attack_state =
  stopClosed :: bool
  workers :: "worker_pc list"
  attackEndTime :: int
  requestsSent :: int64
  successfulHits :: int64
  failedHits :: int64

text \<open>
  The state when \<open>main\<close> has started \<open>n\<close> workers and reads the clock \<open>t\<close> to
  set the deadline.
\<close>

definition attackStart :: "nat \<Rightarrow> int \<Rightarrow> attack_state" where
  "attackStart n t =
     \<lparr>stopClosed = False, workers = replicate n AtSelect,
      attackEndTime = t + attackDurationSeconds * second,
      requestsSent = 0, successfulHits = 0, failedHits = 0\<rparr>"

text \<open>
  The loop of \<open>main\<close>: a tick with the clock after \<open>attackEndTime\<close> ends the loop,
  and \<open>close(stopSignal)\<close> follows; an earlier tick changes nothing. Nothing is ever
  sent on \<open>stopSignal\<close>, so the other case of the \<open>select\<close> of \<open>main\<close> cannot
  run before the close. After the close \<open>main\<close> reads no tick.
\<close>

definition mainTick :: "int \<Rightarrow> attack_state \<Rightarrow> attack_state option" where
  "mainTick t s =
     (if stopClosed s then None
      else if t > attackEndTime s then Some (s\<lparr>stopClosed := True\<rparr>)
      else Some s)"

text \<open>
  The \<open>select\<close> of \<open>attackWorker\<close>: on the closed channel the worker returns;
  otherwise the default case counts the request and starts it.
\<close>

definition workerSelect :: "nat \<Rightarrow> attack_state \<Rightarrow> attack_state option" where
  "workerSelect i s =
     (if i < length (workers s) \<and> workers s ! i = AtSelect then
        if stopClosed s then Some (s\<lparr>workers := (workers s)[i := Returned]\<rparr>)
        else Some (s\<lparr>requestsSent := requestsSent s + 1,
                     workers := (workers s)[i := InFlight]\<rparr>)
      else None)"

text \<open>
  \<open>client.Get\<close> comes back: an error counts as a failed hit (and the worker sleeps
  50 ms), status 200 as a successful hit, any other status as a failed hit; the worker
  is back at its \<open>select\<close>.
\<close>

definition workerCompletes :: "nat \<Rightarrow> get_result \<Rightarrow> attack_state \<Rightarrow> attack_state option" where
  "workerCompletes i r s =
     (if i < length (workers s) \<and> workers s ! i = InFlight then
        (case r of
           GetError \<Rightarrow>
             Some (s\<lparr>failedHits := failedHits s + 1, workers := (workers s)[i := AtSelect]\<rparr>)
         | StatusCode code \<Rightarrow>
             if code = 200
             then Some (s\<lparr>successfulHits := successfulHits s + 1,
                          workers := (workers s)[i := AtSelect]\<rparr>)
             else Some (s\<lparr>failedHits := failedHits s + 1,
                          workers := (workers s)[i := AtSelect]\<rparr>))
      else None)"

fun attackStep :: "attack_event \<Rightarrow> attack_state \<Rightarrow> attack_state option" where
  "attackStep (Tick t) s = mainTick t s"
| "attackStep (Selects i) s = workerSelect i s"
| "attackStep (Completes i r) s = workerCompletes i r s"

text \<open>A schedule is run step by step; \<open>None\<close> when a step cannot happen in its state.\<close>

fun attackRun :: "attack_state \<Rightarrow> attack_event list \<Rightarrow> attack_state option" where
  "attackRun s [] = Some s"
| "attackRun s (e # es) =
     (case attackStep e s of None \<Rightarrow> None | Some s1 \<Rightarrow> attackRun s1 es)"

text \<open>Reading a schedule: the steps in which a request of worker \<open>i\<close> comes back, and
  all steps of worker \<open>i\<close>.\<close>

fun completesOf :: "nat \<Rightarrow> attack_event \<Rightarrow> bool" where
  "completesOf i (Completes j r) = (i = j)"
| "completesOf i _ = False"

fun eventOf :: "nat \<Rightarrow> attack_event \<Rightarrow> bool" where
  "eventOf i (Selects j) = (i = j)"
| "eventOf i (Completes j r) = (i = j)"
| "eventOf i (Tick t) = False"

section \<open>Inputs for the examples\<close>

text \<open>
  The session \<open>p7\<close> of the scenarios, before its all-in, and the betting turn
  \<^verbatim>\<open>{"type":"action_player_bet","state":{"player":{"player_id":..,"chips":..}}}\<close>.
\<close>

definition sessionP7 :: PlayerSessionState where
  "sessionP7 = \<lparr>username = ''p7'', conn = [], hasPerformedAllIn = False, logPrefix = ''[p7] ''\<rparr>"

definition betTurn :: "string \<Rightarrow> int \<Rightarrow> wire_line" where
  "betTurn pid chips =
     Object [F_type ''action_player_bet'', F_state [SF_player [PF_player_id pid, PF_chips chips]]]"

definition betResponse :: "string \<Rightarrow> int \<Rightarrow> ServerResponse" where
  "betResponse pid chips =
     \<lparr>Type = ''action_player_bet'', Event = None, Code = 0, Message = [], GameID = [],
      Stage = [], State = \<lparr>Player = \<lparr>PlayerID = pid, Chips = chips\<rparr>\<rparr>, MinimumBet = 0\<rparr>"

text \<open>The same session after its all-in of 500.\<close>

definition allInP7 :: PlayerSessionState where
  "allInP7 = \<lparr>username = ''p7'',
      conn = [JObject [(''action'', JString ''bet''), (''amount'', JNumber 500)]],
      hasPerformedAllIn = True, logPrefix = ''[p7] ''\<rparr>"

text \<open>
  A network for two sessions: session 0 is refused at the dial; session 1 registers,
  joins, goes all-in with 500 chips and leaves at the activity timeout.
\<close>

definition exampleNet :: "nat \<Rightarrow> session_answers" where
  "exampleNet i =
     \<lparr>dialOk = (i \<noteq> 0), regSend = SendOk,
      regRead = Line (Object [F_type ''event_player_leaderboard_entry_start'']),
      joinSend = SendOk, gameStart = 0,
      passes = [\<lparr>now = 5, incoming = Line (betTurn ''over-1'' 500), outgoing = SendOk\<rparr>,
                \<lparr>now = 60000000001, incoming = ReadStringFails, outgoing = SendOk\<rparr>]\<rparr>"


text \<open>
  Two workers: both start a request, worker 1 gets status 200 and starts another, and
  the tick after the deadline closes the channel; then both requests come back and
  both workers return at their next \<open>select\<close>.
\<close>

definition exampleBefore :: "attack_event list" where
  "exampleBefore =
     [Selects 0, Selects 1, Completes 1 (StatusCode 200), Selects 1, Tick 30000000001]"

definition exampleAfter :: "attack_event list" where
  "exampleAfter = [Completes 0 GetError, Selects 0, Completes 1 (StatusCode 500), Selects 1]"

section \<open>Properties\<close>

subsection \<open>Logging, sending and reading\<close>

lemma logVerbose_eq: "logVerbose ps e g = g\<lparr>stdout := stdout g @ [(logPrefix ps, e)]\<rparr>"
  by (simp add: logVerbose_def verboseLogging_def)

lemma counters_logVerbose [simp]: "counters (logVerbose ps e g) = counters g"
  by (simp add: logVerbose_eq counters_def)

lemma sendingLines_append [simp]: "sendingLines (xs @ ys) = sendingLines xs @ sendingLines ys"
  by (induction xs rule: sendingLines.induct) simp_all

lemma marshal_fold:
  "marshal (ActionOut foldMsg) = JObject [(''action'', JString ''bet''), (''amount'', JNumber (- 1))]"
  by (simp add: foldMsg_def marshalActionMsg_def pint_def)

lemma marshal_bet:
  "marshal (ActionOut (betMsg n)) = JObject [(''action'', JString ''bet''), (''amount'', JNumber n)]"
  by (simp add: betMsg_def marshalActionMsg_def pint_def)

lemma marshal_join: "marshal (ActionOut joinMsg) = JObject [(''action'', JString ''join'')]"
  by (simp add: joinMsg_def marshalActionMsg_def)

lemma sendJSON_SendOk:
  "sendJSON ps d SendOk g =
     (None, ps\<lparr>conn := conn ps @ [marshal d]\<rparr>, logVerbose ps (LogSending (marshal d)) g)"
  by (simp add: sendJSON_def Let_def)

text \<open>A write that fails leaves the connection and the counters as they were.\<close>

lemma sendJSON_failure:
  assumes "a \<noteq> SendOk"
  obtains err g1 where "sendJSON ps d a g = (Some err, ps, g1)" and "counters g1 = counters g"
  using assms by (cases a) (simp_all add: sendJSON_def Let_def)

lemma unmarshal_betTurn: "unmarshal (betTurn pid chips) = Inr (betResponse pid chips)"
  by (simp add: betTurn_def betResponse_def zeroServerResponse_def zeroPlayerStateForBet_def)

lemma readServerMessage_Line:
  "unmarshal l = Inr resp \<Longrightarrow>
     readServerMessage ps (Line l) g = (Inr resp, logVerbose ps (LogReceived l) g)"
  by (simp add: readServerMessage_def Let_def)

text \<open>A pass that reads a response before the deadline hands it to the switch.\<close>

lemma gameLoopBody_response:
  assumes "since t0 (now ob) \<le> gameActivityTimeout"
    and "incoming ob = Line l" and "unmarshal l = Inr resp"
  shows "gameLoopBody t0 ob ps g =
           onResponse resp (outgoing ob) ps (logVerbose ps (LogReceived l) g)"
  using assms by (simp add: gameLoopBody_def readServerMessage_Line)

subsection \<open>What the game loop may change\<close>

lemma onActionPlayerBet_effect:
  assumes "onActionPlayerBet resp sa ps g = (c, ps1, g1)"
  shows "username ps1 = username ps \<and> logPrefix ps1 = logPrefix ps
       \<and> (hasPerformedAllIn ps \<longrightarrow> hasPerformedAllIn ps1)
       \<and> successfulRegistrations g1 = successfulRegistrations g
       \<and> failedRegistrations g1 = failedRegistrations g
       \<and> gamesJoined g1 = gamesJoined g"
  using assms
  by (cases sa)
    (auto simp: onActionPlayerBet_def Let_def sendJSON_def logVerbose_eq split: if_splits)

lemma onActionPlayerBet_conn:
  assumes "onActionPlayerBet resp sa ps g = (c, ps1, g1)"
  shows "\<exists>new. conn ps1 = conn ps @ new
           \<and> (\<forall>p\<in>set new. \<exists>n. betAmount p = Some n \<and> (0 < n \<or> n = - 1))
           \<and> (hasPerformedAllIn ps \<longrightarrow>
                (\<forall>p\<in>set new. betAmount p = Some (- 1))
              \<and> allInsMade g1 = allInsMade g
              \<and> foldsMade g1 = foldsMade g + of_nat (length new))"
  using assms
  by (cases sa)
    (auto simp: onActionPlayerBet_def Let_def sendJSON_def logVerbose_eq marshal_fold marshal_bet
      simp del: marshal.simps split: if_splits)

lemma onActionPlayerBet_stdout:
  assumes "onActionPlayerBet resp sa ps g = (c, ps1, g1)"
  shows "\<exists>lg. stdout g1 = stdout g @ lg
           \<and> (\<forall>p\<in>set (sendingLines lg). \<exists>n. betAmount p = Some n \<and> (0 < n \<or> n = - 1))
           \<and> (hasPerformedAllIn ps \<longrightarrow> (\<forall>p\<in>set (sendingLines lg). betAmount p = Some (- 1)))"
  using assms
  by (cases sa)
    (auto simp: onActionPlayerBet_def Let_def sendJSON_def logVerbose_eq marshal_fold marshal_bet
      simp del: marshal.simps split: if_splits)

lemma loopEffect_refl: "loopEffect ps g ps g"
  by (simp add: loopEffect_def)

lemma loopEffect_trans:
  assumes "loopEffect ps g ps1 g1" and "loopEffect ps1 g1 ps2 g2"
  shows "loopEffect ps g ps2 g2"
proof -
  from assms(1) obtain new lg where
    a: "username ps1 = username ps" "logPrefix ps1 = logPrefix ps"
       "hasPerformedAllIn ps \<longrightarrow> hasPerformedAllIn ps1"
       "successfulRegistrations g1 = successfulRegistrations g"
       "failedRegistrations g1 = failedRegistrations g"
       "gamesJoined g1 = gamesJoined g"
       "conn ps1 = conn ps @ new"
       "\<forall>p\<in>set new. \<exists>n. betAmount p = Some n \<and> (0 < n \<or> n = - 1)"
       "hasPerformedAllIn ps \<longrightarrow>
              (\<forall>p\<in>set new. betAmount p = Some (- 1))
            \<and> allInsMade g1 = allInsMade g
            \<and> foldsMade g1 = foldsMade g + of_nat (length new)"
       "stdout g1 = stdout g @ lg"
       "\<forall>p\<in>set (sendingLines lg). \<exists>n. betAmount p = Some n \<and> (0 < n \<or> n = - 1)"
       "hasPerformedAllIn ps \<longrightarrow> (\<forall>p\<in>set (sendingLines lg). betAmount p = Some (- 1))"
    unfolding loopEffect_def by blast
  from assms(2) obtain new' lg' where
    b: "username ps2 = username ps1" "logPrefix ps2 = logPrefix ps1"
       "hasPerformedAllIn ps1 \<longrightarrow> hasPerformedAllIn ps2"
       "successfulRegistrations g2 = successfulRegistrations g1"
       "failedRegistrations g2 = failedRegistrations g1"
       "gamesJoined g2 = gamesJoined g1"
       "conn ps2 = conn ps1 @ new'"
       "\<forall>p\<in>set new'. \<exists>n. betAmount p = Some n \<and> (0 < n \<or> n = - 1)"
       "hasPerformedAllIn ps1 \<longrightarrow>
              (\<forall>p\<in>set new'. betAmount p = Some (- 1))
            \<and> allInsMade g2 = allInsMade g1
            \<and> foldsMade g2 = foldsMade g1 + of_nat (length new')"
       "stdout g2 = stdout g1 @ lg'"
       "\<forall>p\<in>set (sendingLines lg'). \<exists>n. betAmount p = Some n \<and> (0 < n \<or> n = - 1)"
       "hasPerformedAllIn ps1 \<longrightarrow> (\<forall>p\<in>set (sendingLines lg'). betAmount p = Some (- 1))"
    unfolding loopEffect_def by blast
  have c: "conn ps2 = conn ps @ (new @ new')" using a b by simp
  have d: "stdout g2 = stdout g @ (lg @ lg')" using a b by simp
  have "\<forall>p\<in>set (new @ new'). \<exists>n. betAmount p = Some n \<and> (0 < n \<or> n = - 1)"
    using a(8) b(8) by auto
  moreover have "hasPerformedAllIn ps \<longrightarrow>
              (\<forall>p\<in>set (new @ new'). betAmount p = Some (- 1))
            \<and> allInsMade g2 = allInsMade g
            \<and> foldsMade g2 = foldsMade g + of_nat (length (new @ new'))"
    using a(3,9) b(9) by auto
  moreover have
    "\<forall>p\<in>set (sendingLines (lg @ lg')). \<exists>n. betAmount p = Some n \<and> (0 < n \<or> n = - 1)"
    using a(11) b(11) by auto
  moreover have
    "hasPerformedAllIn ps \<longrightarrow> (\<forall>p\<in>set (sendingLines (lg @ lg')). betAmount p = Some (- 1))"
    using a(3,12) b(12) by auto
  ultimately have
    "\<exists>n. conn ps2 = conn ps @ n
         \<and> (\<forall>p\<in>set n. \<exists>k. betAmount p = Some k \<and> (0 < k \<or> k = - 1))
         \<and> (hasPerformedAllIn ps \<longrightarrow>
              (\<forall>p\<in>set n. betAmount p = Some (- 1))
            \<and> allInsMade g2 = allInsMade g
            \<and> foldsMade g2 = foldsMade g + of_nat (length n))"
    and "\<exists>l. stdout g2 = stdout g @ l
         \<and> (\<forall>p\<in>set (sendingLines l). \<exists>k. betAmount p = Some k \<and> (0 < k \<or> k = - 1))
         \<and> (hasPerformedAllIn ps \<longrightarrow> (\<forall>p\<in>set (sendingLines l). betAmount p = Some (- 1)))"
    using c d by blast+
  then show ?thesis
    unfolding loopEffect_def using a(1-6) b(1-6) by simp
qed

lemma onActionPlayerBet_loopEffect:
  "onActionPlayerBet resp sa ps g = (c, ps1, g1) \<Longrightarrow> loopEffect ps g ps1 g1"
  unfolding loopEffect_def
  using onActionPlayerBet_effect [of resp sa ps g c ps1 g1]
    onActionPlayerBet_conn [of resp sa ps g c ps1 g1]
    onActionPlayerBet_stdout [of resp sa ps g c ps1 g1]
  by simp

lemma onResponse_loopEffect:
  assumes "onResponse resp sa ps g = (c, ps1, g1)"
  shows "loopEffect ps g ps1 g1"
proof (cases "Type resp = ''action_player_bet''")
  case True
  with assms show ?thesis by (simp add: onResponse_def onActionPlayerBet_loopEffect)
next
  case False
  with assms show ?thesis
    by (auto simp: onResponse_def loopEffect_def Let_def logVerbose_eq split: if_splits)
qed

lemma readServerMessage_loopEffect:
  assumes "readServerMessage ps ra g = (r, g1)"
  shows "loopEffect ps g ps g1"
  using assms
  by (auto simp: readServerMessage_def loopEffect_def Let_def logVerbose_eq
      split: read_answer.splits sum.splits)

lemma gameLoopBody_loopEffect:
  assumes "gameLoopBody t0 ob ps g = (c, ps1, g1)"
  shows "loopEffect ps g ps1 g1"
proof (cases "since t0 (now ob) > gameActivityTimeout")
  case True
  with assms show ?thesis
    by (auto simp: gameLoopBody_def loopEffect_def logVerbose_eq)
next
  case False
  obtain r g0 where r: "readServerMessage ps (incoming ob) g = (r, g0)"
    by (cases "readServerMessage ps (incoming ob) g")
  then have e0: "loopEffect ps g ps g0" by (rule readServerMessage_loopEffect)
  show ?thesis
  proof (cases r)
    case (Inl err)
    with assms False r have "ps1 = ps" "g1 = logVerbose ps (LogExitReadError err) g0"
      by (auto simp: gameLoopBody_def)
    moreover have "loopEffect ps g0 ps (logVerbose ps (LogExitReadError err) g0)"
      by (simp add: loopEffect_def logVerbose_eq)
    ultimately show ?thesis using e0 loopEffect_trans by blast
  next
    case (Inr resp)
    with assms False r have "onResponse resp (outgoing ob) ps g0 = (c, ps1, g1)"
      by (simp add: gameLoopBody_def)
    then have "loopEffect ps g0 ps1 g1" by (rule onResponse_loopEffect)
    with e0 show ?thesis by (rule loopEffect_trans)
  qed
qed

lemma gameLoop_loopEffect:
  "gameLoop t0 obs ps g = (c, ps1, g1) \<Longrightarrow> loopEffect ps g ps1 g1"
proof (induction obs arbitrary: ps g)
  case Nil
  then show ?case by (simp add: loopEffect_refl)
next
  case (Cons ob obs)
  obtain c' ps' g' where b: "gameLoopBody t0 ob ps g = (c', ps', g')"
    by (cases "gameLoopBody t0 ob ps g")
  then have e: "loopEffect ps g ps' g'" by (rule gameLoopBody_loopEffect)
  show ?case
  proof (cases c')
    case Continue
    with Cons.prems b have "gameLoop t0 obs ps' g' = (c, ps1, g1)" by simp
    then have "loopEffect ps' g' ps1 g1" by (rule Cons.IH)
    with e show ?thesis by (rule loopEffect_trans)
  next
    case Return
    with Cons.prems b e show ?thesis by simp
  qed
qed

lemma bet_turn_pass:
  assumes "since t0 (now ob) \<le> gameActivityTimeout"
    and "incoming ob = Line l" and "unmarshal l = Inr resp"
    and "Type resp = ''action_player_bet''"
  shows "gameLoopBody t0 ob ps g =
           onActionPlayerBet resp (outgoing ob) ps (logVerbose ps (LogReceived l) g)"
  using assms by (simp add: gameLoopBody_response onResponse_def)

text \<open>The three branches of a betting turn for this player, when the write succeeds.\<close>

lemma all_in_sent:
  assumes "PlayerID (Player (State resp)) = username ps"
    and "\<not> hasPerformedAllIn ps" and "0 < Chips (Player (State resp))"
    and "onActionPlayerBet resp SendOk ps g = (c, ps1, g1)"
  shows "c = Continue
       \<and> ps1 = ps\<lparr>conn := conn ps @ [JObject [(''action'', JString ''bet''),
                    (''amount'', JNumber (Chips (Player (State resp))))]],
                 hasPerformedAllIn := True\<rparr>
       \<and> allInsMade g1 = allInsMade g + 1
       \<and> successfulRegistrations g1 = successfulRegistrations g
       \<and> failedRegistrations g1 = failedRegistrations g
       \<and> gamesJoined g1 = gamesJoined g
       \<and> foldsMade g1 = foldsMade g"
  using assms
  by (auto simp: onActionPlayerBet_def Let_def sendJSON_SendOk logVerbose_eq marshal_bet
      simp del: marshal.simps)

lemma fold_sent:
  assumes "PlayerID (Player (State resp)) = username ps"
    and "hasPerformedAllIn ps \<or> Chips (Player (State resp)) \<le> 0"
    and "onActionPlayerBet resp SendOk ps g = (c, ps1, g1)"
  shows "c = Continue
       \<and> ps1 = ps\<lparr>conn := conn ps @ [JObject [(''action'', JString ''bet''),
                    (''amount'', JNumber (- 1))]]\<rparr>
       \<and> foldsMade g1 = foldsMade g + 1
       \<and> successfulRegistrations g1 = successfulRegistrations g
       \<and> failedRegistrations g1 = failedRegistrations g
       \<and> gamesJoined g1 = gamesJoined g
       \<and> allInsMade g1 = allInsMade g"
  using assms
  by (auto simp: onActionPlayerBet_def Let_def sendJSON_SendOk logVerbose_eq marshal_fold
      simp del: marshal.simps split: if_splits)

text \<open>A betting turn for this player whose write fails ends the loop and changes nothing
  but the output.\<close>

lemma bet_turn_write_fails:
  assumes "PlayerID (Player (State resp)) = username ps"
    and "sa \<noteq> SendOk"
    and "onActionPlayerBet resp sa ps g = (c, ps1, g1)"
  shows "c = Return \<and> ps1 = ps \<and> counters g1 = counters g"
  using assms
  by (cases sa)
    (auto simp: onActionPlayerBet_def Let_def sendJSON_def logVerbose_eq counters_def
      split: if_splits)

subsection \<open>Betting turns\<close>

text \<open>
  C1, as amended. A session in the game loop whose all-in flag is unset receives a
  betting turn (type \<open>action_player_bet\<close>) whose \<open>player_id\<close> is its username and
  whose chips are strictly positive. If the write of the action succeeds, the session
  sends exactly one bet whose amount is that chip count, adds 1 to the all-in counter
  (and to no other counter) and sets the flag; the loop goes on. If the write fails,
  \<open>gameLoop\<close> returns with nothing sent, no counter changed and the flag still unset.
\<close>

theorem all_in_on_positive_chips:
  assumes "since t0 (now ob) \<le> gameActivityTimeout"
    and "incoming ob = Line l" and "unmarshal l = Inr resp"
    and "Type resp = ''action_player_bet''"
    and "PlayerID (Player (State resp)) = username ps"
    and "0 < Chips (Player (State resp))"
    and "\<not> hasPerformedAllIn ps"
    and "gameLoopBody t0 ob ps g = (c, ps1, g1)"
  shows "(outgoing ob = SendOk \<longrightarrow>
            c = Continue
          \<and> conn ps1 = conn ps @ [JObject [(''action'', JString ''bet''),
                                            (''amount'', JNumber (Chips (Player (State resp))))]]
          \<and> allInsMade g1 = allInsMade g + 1
          \<and> hasPerformedAllIn ps1
          \<and> successfulRegistrations g1 = successfulRegistrations g
          \<and> failedRegistrations g1 = failedRegistrations g
          \<and> gamesJoined g1 = gamesJoined g
          \<and> foldsMade g1 = foldsMade g)
       \<and> (outgoing ob \<noteq> SendOk \<longrightarrow>
            c = Return \<and> conn ps1 = conn ps \<and> counters g1 = counters g
          \<and> \<not> hasPerformedAllIn ps1)"
proof -
  let ?g0 = "logVerbose ps (LogReceived l) g"
  have b: "onActionPlayerBet resp (outgoing ob) ps ?g0 = (c, ps1, g1)"
    using assms(1-4,8) by (simp add: bet_turn_pass)
  have g0: "counters ?g0 = counters g" by simp
  show ?thesis
  proof (cases "outgoing ob = SendOk")
    case True
    with all_in_sent [OF assms(5,7,6), of ?g0 c ps1 g1] b show ?thesis
      by (simp add: logVerbose_eq)
  next
    case False
    with bet_turn_write_fails [OF assms(5) False b] assms(7) g0 show ?thesis by simp
  qed
qed

theorem all_in_on_positive_chips_witness:
  "(case gameLoopBody 0 \<lparr>now = 5, incoming = Line (betTurn ''p7'' 500), outgoing = SendOk\<rparr>
           sessionP7 zeroGlobals of
      (c, ps1, g1) \<Rightarrow>
        c = Continue
      \<and> conn ps1 = [JObject [(''action'', JString ''bet''), (''amount'', JNumber 500)]]
      \<and> allInsMade g1 = 1 \<and> hasPerformedAllIn ps1)"
proof -
  let ?ob = "\<lparr>now = 5, incoming = Line (betTurn ''p7'' 500), outgoing = SendOk\<rparr>"
  obtain c ps1 g1 where r: "gameLoopBody 0 ?ob sessionP7 zeroGlobals = (c, ps1, g1)"
    by (cases "gameLoopBody 0 ?ob sessionP7 zeroGlobals")
  have h1: "since 0 (now ?ob) \<le> gameActivityTimeout"
    by (simp add: since_def gameActivityTimeout_def second_def)
  have h2: "incoming ?ob = Line (betTurn ''p7'' 500)" by simp
  have h4: "Type (betResponse ''p7'' 500) = ''action_player_bet''"
    by (simp add: betResponse_def)
  have h5: "PlayerID (Player (State (betResponse ''p7'' 500))) = username sessionP7"
    by (simp add: betResponse_def sessionP7_def)
  have h6: "0 < Chips (Player (State (betResponse ''p7'' 500)))"
    by (simp add: betResponse_def)
  have h7: "\<not> hasPerformedAllIn sessionP7" by (simp add: sessionP7_def)
  have "c = Continue
      \<and> conn ps1 = [JObject [(''action'', JString ''bet''), (''amount'', JNumber 500)]]
      \<and> allInsMade g1 = 1 \<and> hasPerformedAllIn ps1"
    using all_in_on_positive_chips [OF h1 h2 unmarshal_betTurn h4 h5 h6 h7 r]
    by (simp add: sessionP7_def zeroGlobals_def betResponse_def)
  then show ?thesis by (simp add: r)
qed

text \<open>
  The claim as stated, with bet, counter and flag on every such turn, fails when the
  write of the bet fails: the session \<open>p7\<close> with 500 chips logs the attempt and leaves
  the loop; nothing is on the connection, the all-in counter is still 0 and the flag
  is unset.
\<close>

theorem all_in_write_fails_counterexample:
  "gameLoopBody 0 \<lparr>now = 5, incoming = Line (betTurn ''p7'' 500), outgoing = WriteFails\<rparr>
       sessionP7 zeroGlobals
     = (Return, sessionP7,
        zeroGlobals\<lparr>stdout :=
          [(''[p7] '', LogReceived (betTurn ''p7'' 500)),
           (''[p7] '', LogMyTurn [] 500),
           (''[p7] '', LogGoingAllIn 500),
           (''[p7] '', LogSending (JObject [(''action'', JString ''bet''), (''amount'', JNumber 500)])),
           (''[p7] '', LogErrorSendingData),
           (''[p7] '', LogErrorSendingAllIn ErrWrite)]\<rparr>)
   \<and> conn sessionP7 = [] \<and> \<not> hasPerformedAllIn sessionP7 \<and> allInsMade zeroGlobals = 0"
  by (simp add: gameLoopBody_def since_def gameActivityTimeout_def second_def
      readServerMessage_def unmarshal_betTurn betResponse_def onResponse_def
      onActionPlayerBet_def sessionP7_def Let_def sendJSON_def logVerbose_eq marshal_bet
      zeroGlobals_def del: marshal.simps)

lemma betAmount_Some:
  "betAmount p = Some n \<longleftrightarrow> p = JObject [(''action'', JString ''bet''), (''amount'', JNumber n)]"
  by (cases p rule: betAmount.cases) (auto split: if_splits)

text \<open>
  C3, as amended. A session in the game loop whose all-in flag is unset receives a
  betting turn for itself with chips zero or negative. If the write succeeds, it sends
  a fold (a bet of \<open>- 1\<close>, not a bet of the chips), adds 1 to the fold counter (and to
  no other counter) and leaves the flag unset; the loop goes on. If the write fails,
  \<open>gameLoop\<close> returns with nothing sent, no counter changed and the flag unset.
\<close>

theorem forced_fold_on_empty_stack:
  assumes "since t0 (now ob) \<le> gameActivityTimeout"
    and "incoming ob = Line l" and "unmarshal l = Inr resp"
    and "Type resp = ''action_player_bet''"
    and "PlayerID (Player (State resp)) = username ps"
    and "Chips (Player (State resp)) \<le> 0"
    and "\<not> hasPerformedAllIn ps"
    and "gameLoopBody t0 ob ps g = (c, ps1, g1)"
  shows "(outgoing ob = SendOk \<longrightarrow>
            c = Continue
          \<and> conn ps1 = conn ps @ [JObject [(''action'', JString ''bet''),
                                            (''amount'', JNumber (- 1))]]
          \<and> foldsMade g1 = foldsMade g + 1
          \<and> \<not> hasPerformedAllIn ps1
          \<and> successfulRegistrations g1 = successfulRegistrations g
          \<and> failedRegistrations g1 = failedRegistrations g
          \<and> gamesJoined g1 = gamesJoined g
          \<and> allInsMade g1 = allInsMade g)
       \<and> (outgoing ob \<noteq> SendOk \<longrightarrow>
            c = Return \<and> conn ps1 = conn ps \<and> counters g1 = counters g
          \<and> \<not> hasPerformedAllIn ps1)"
proof -
  let ?g0 = "logVerbose ps (LogReceived l) g"
  have b: "onActionPlayerBet resp (outgoing ob) ps ?g0 = (c, ps1, g1)"
    using assms(1-4,8) by (simp add: bet_turn_pass)
  have g0: "counters ?g0 = counters g" by simp
  show ?thesis
  proof (cases "outgoing ob = SendOk")
    case True
    from assms(6) have "hasPerformedAllIn ps \<or> Chips (Player (State resp)) \<le> 0" by simp
    from fold_sent [OF assms(5) this, of ?g0 c ps1 g1] b True assms(7) show ?thesis
      by (simp add: logVerbose_eq)
  next
    case False
    with bet_turn_write_fails [OF assms(5) False b] assms(7) g0 show ?thesis by simp
  qed
qed

theorem forced_fold_on_empty_stack_witness:
  "(case gameLoopBody 0 \<lparr>now = 5, incoming = Line (betTurn ''p7'' 0), outgoing = SendOk\<rparr>
           sessionP7 zeroGlobals of
      (c, ps1, g1) \<Rightarrow>
        c = Continue
      \<and> conn ps1 = [JObject [(''action'', JString ''bet''), (''amount'', JNumber (- 1))]]
      \<and> foldsMade g1 = 1 \<and> allInsMade g1 = 0 \<and> \<not> hasPerformedAllIn ps1)"
proof -
  let ?ob = "\<lparr>now = 5, incoming = Line (betTurn ''p7'' 0), outgoing = SendOk\<rparr>"
  obtain c ps1 g1 where r: "gameLoopBody 0 ?ob sessionP7 zeroGlobals = (c, ps1, g1)"
    by (cases "gameLoopBody 0 ?ob sessionP7 zeroGlobals")
  have h1: "since 0 (now ?ob) \<le> gameActivityTimeout"
    by (simp add: since_def gameActivityTimeout_def second_def)
  have h2: "incoming ?ob = Line (betTurn ''p7'' 0)" by simp
  have h4: "Type (betResponse ''p7'' 0) = ''action_player_bet''"
    by (simp add: betResponse_def)
  have h5: "PlayerID (Player (State (betResponse ''p7'' 0))) = username sessionP7"
    by (simp add: betResponse_def sessionP7_def)
  have h6: "Chips (Player (State (betResponse ''p7'' 0))) \<le> 0"
    by (simp add: betResponse_def)
  have h7: "\<not> hasPerformedAllIn sessionP7" by (simp add: sessionP7_def)
  have "c = Continue
      \<and> conn ps1 = [JObject [(''action'', JString ''bet''), (''amount'', JNumber (- 1))]]
      \<and> foldsMade g1 = 1 \<and> allInsMade g1 = 0 \<and> \<not> hasPerformedAllIn ps1"
    using forced_fold_on_empty_stack [OF h1 h2 unmarshal_betTurn h4 h5 h6 h7 r]
    by (simp add: sessionP7_def zeroGlobals_def)
  then show ?thesis by (simp add: r)
qed

text \<open>
  The claim as stated, with fold and counter on every such turn, fails when the write of
  the fold fails: the session \<open>p7\<close> with no chips logs the attempt and leaves the loop;
  nothing is on the connection and the fold counter is still 0.
\<close>

theorem forced_fold_write_fails_counterexample:
  "gameLoopBody 0 \<lparr>now = 5, incoming = Line (betTurn ''p7'' 0), outgoing = WriteFails\<rparr>
       sessionP7 zeroGlobals
     = (Return, sessionP7,
        zeroGlobals\<lparr>stdout :=
          [(''[p7] '', LogReceived (betTurn ''p7'' 0)),
           (''[p7] '', LogMyTurn [] 0),
           (''[p7] '', LogCannotBet 0),
           (''[p7] '', LogSending (JObject [(''action'', JString ''bet''), (''amount'', JNumber (- 1))])),
           (''[p7] '', LogErrorSendingData),
           (''[p7] '', LogErrorSendingFold ErrWrite)]\<rparr>)
   \<and> conn sessionP7 = [] \<and> foldsMade zeroGlobals = 0"
  by (simp add: gameLoopBody_def since_def gameActivityTimeout_def second_def
      readServerMessage_def unmarshal_betTurn betResponse_def onResponse_def
      onActionPlayerBet_def sessionP7_def Let_def sendJSON_def logVerbose_eq marshal_fold
      zeroGlobals_def del: marshal.simps)

subsection \<open>Leaving the loop without a count\<close>

text \<open>A pass that finds the deadline passed, or whose read fails, ends the loop.\<close>

lemma gameLoop_exit_pass:
  assumes "since t0 (now ob) > gameActivityTimeout
         \<or> incoming ob = SetReadDeadlineFails \<or> incoming ob = ReadStringFails
         \<or> incoming ob = Line Undecodable"
  shows "\<exists>g1. gameLoopBody t0 ob ps g = (Return, ps, g1)
            \<and> gameLoop t0 (ob # obs) ps g = (Return, ps, g1)
            \<and> counters g1 = counters g
            \<and> (since t0 (now ob) > gameActivityTimeout
                 \<longrightarrow> g1 = g\<lparr>stdout := stdout g @ [(logPrefix ps, LogGameActivityTimeout)]\<rparr>)"
proof (cases "since t0 (now ob) > gameActivityTimeout")
  case True
  then show ?thesis
    by (simp add: gameLoopBody_def logVerbose_eq counters_def)
next
  case False
  with assms consider "incoming ob = SetReadDeadlineFails" | "incoming ob = ReadStringFails"
    | "incoming ob = Line Undecodable" by blast
  then show ?thesis
  proof cases
    case 1
    with False show ?thesis
      by (simp add: gameLoopBody_def readServerMessage_def logVerbose_eq counters_def)
  next
    case 2
    with False show ?thesis
      by (simp add: gameLoopBody_def readServerMessage_def logVerbose_eq counters_def)
  next
    case 3
    with False show ?thesis
      by (simp add: gameLoopBody_def readServerMessage_def logVerbose_eq counters_def)
  qed
qed

subsection \<open>Lines without a type\<close>

text \<open>
  C6. A line that holds none of the fields of the response decodes to the zero value,
  with type \<open>""\<close> and code 0; \<^verbatim>\<open>{"code":400,"message":"bad"}\<close> decodes to the
  zero value with code 400 and that message, and any line without a type whose last
  field is a code decodes to a response with type \<open>""\<close> and that code. In the game loop a response with the empty
  type and code 0 is logged as a message with empty type and no error code, and one
  with the empty type and any non-zero code is logged as an error from the server; in
  both cases the session state and the counters stay as they are and the loop goes on
  with the next pass.
\<close>

theorem untyped_lines:
  assumes "since t0 (now ob) \<le> gameActivityTimeout"
    and "incoming ob = Line l" and "unmarshal l = Inr resp"
    and "Type resp = []"
  shows "(list_all (\<lambda>f. f = F_other) fs \<longrightarrow> unmarshal (Object fs) = Inr zeroServerResponse)
       \<and> Type zeroServerResponse = [] \<and> Code zeroServerResponse = 0
       \<and> unmarshal (Object [F_code 400, F_message ''bad''])
           = Inr (zeroServerResponse\<lparr>Code := 400, Message := ''bad''\<rparr>)
       \<and> (list_all (\<lambda>f. case f of F_type s \<Rightarrow> False | _ \<Rightarrow> True) fs' \<longrightarrow>
            (\<exists>r. unmarshal (Object (fs' @ [F_code k])) = Inr r \<and> Type r = [] \<and> Code r = k))
       \<and> (Code resp = 0 \<longrightarrow>
            gameLoopBody t0 ob ps g =
              (Continue, ps, g\<lparr>stdout := stdout g @
                 [(logPrefix ps, LogReceived l), (logPrefix ps, LogEmptyType resp)]\<rparr>))
       \<and> (Code resp \<noteq> 0 \<longrightarrow>
            gameLoopBody t0 ob ps g =
              (Continue, ps, g\<lparr>stdout := stdout g @
                 [(logPrefix ps, LogReceived l),
                  (logPrefix ps, LogServerError (Code resp) (Message resp))]\<rparr>))
       \<and> (\<exists>g1. gameLoopBody t0 ob ps g = (Continue, ps, g1) \<and> counters g1 = counters g
              \<and> gameLoop t0 (ob # obs) ps g = gameLoop t0 obs ps g1)"
proof -
  have z: "list_all (\<lambda>f. f = F_other) fs \<Longrightarrow> foldl setField r fs = r" for r
    by (induction fs arbitrary: r) auto
  have a: "list_all (\<lambda>f. f = F_other) fs \<longrightarrow> unmarshal (Object fs) = Inr zeroServerResponse"
    by (simp add: z)
  have b: "Type zeroServerResponse = [] \<and> Code zeroServerResponse = 0"
    by (simp add: zeroServerResponse_def)
  have c: "unmarshal (Object [F_code 400, F_message ''bad''])
           = Inr (zeroServerResponse\<lparr>Code := 400, Message := ''bad''\<rparr>)"
    by simp
  have t: "list_all (\<lambda>f. case f of F_type s \<Rightarrow> False | _ \<Rightarrow> True) fs'
             \<Longrightarrow> Type (foldl setField r fs') = Type r" for r
    by (induction fs' arbitrary: r) (auto split: resp_field.splits)
  have e: "list_all (\<lambda>f. case f of F_type s \<Rightarrow> False | _ \<Rightarrow> True) fs' \<longrightarrow>
            (\<exists>r. unmarshal (Object (fs' @ [F_code k])) = Inr r \<and> Type r = [] \<and> Code r = k)"
    by (simp add: t zeroServerResponse_def)
  have d: "gameLoopBody t0 ob ps g =
             (Continue, ps,
              if Code resp \<noteq> 0
              then g\<lparr>stdout := stdout g @
                 [(logPrefix ps, LogReceived l),
                  (logPrefix ps, LogServerError (Code resp) (Message resp))]\<rparr>
              else g\<lparr>stdout := stdout g @
                 [(logPrefix ps, LogReceived l), (logPrefix ps, LogEmptyType resp)]\<rparr>)"
    using assms by (simp add: gameLoopBody_response onResponse_def logVerbose_eq)
  show ?thesis using a b c d e by (simp add: counters_def)
qed

theorem untyped_lines_witness:
  "gameLoopBody 0 \<lparr>now = 5, incoming = Line (Object [F_code 400, F_message ''bad'']),
                   outgoing = SendOk\<rparr> sessionP7 zeroGlobals
     = (Continue, sessionP7,
        zeroGlobals\<lparr>stdout :=
          [(''[p7] '', LogReceived (Object [F_code 400, F_message ''bad''])),
           (''[p7] '', LogServerError 400 ''bad'')]\<rparr>)"
proof -
  let ?l = "Object [F_code 400, F_message ''bad'']"
  let ?ob = "\<lparr>now = 5, incoming = Line ?l, outgoing = SendOk\<rparr>"
  let ?resp = "zeroServerResponse\<lparr>Code := 400, Message := ''bad''\<rparr>"
  have h1: "since 0 (now ?ob) \<le> gameActivityTimeout"
    by (simp add: since_def gameActivityTimeout_def second_def)
  have h2: "incoming ?ob = Line ?l" by simp
  have h3: "unmarshal ?l = Inr ?resp" by simp
  have h4: "Type ?resp = []" by (simp add: zeroServerResponse_def)
  have h5: "Code ?resp \<noteq> 0" by simp
  from untyped_lines [OF h1 h2 h3 h4, where ps = sessionP7 and g = zeroGlobals] h5
  have "gameLoopBody 0 ?ob sessionP7 zeroGlobals =
          (Continue, sessionP7, zeroGlobals\<lparr>stdout := stdout zeroGlobals @
             [(logPrefix sessionP7, LogReceived ?l),
              (logPrefix sessionP7, LogServerError (Code ?resp) (Message ?resp))]\<rparr>)"
    by blast
  then show ?thesis by (simp add: sessionP7_def zeroGlobals_def)
qed

subsection \<open>After the all-in\<close>

text \<open>
  C2, as amended. Once the all-in flag is set, it stays set for the rest of the game
  loop, whatever the passes; the all-in counter does not move again; and every payload
  the session writes from then on, or shows in a line \<open>Sending: ...\<close>, is a fold (a
  bet of \<open>- 1\<close>), never another bet, with the fold counter counting the folds written.
  On each later betting turn addressed to the session: if the write succeeds, the
  session sends one fold and adds 1 to the fold counter; if the write fails,
  \<open>gameLoop\<close> returns with nothing sent and no counter changed.
\<close>

theorem flag_stays_and_folds_follow:
  assumes "hasPerformedAllIn ps"
  shows "(\<forall>t0 obs g c ps1 g1. gameLoop t0 obs ps g = (c, ps1, g1) \<longrightarrow>
            hasPerformedAllIn ps1
          \<and> allInsMade g1 = allInsMade g
          \<and> (\<exists>new lg. conn ps1 = conn ps @ new \<and> stdout g1 = stdout g @ lg
                \<and> (\<forall>p\<in>set new \<union> set (sendingLines lg).
                       p = JObject [(''action'', JString ''bet''), (''amount'', JNumber (- 1))])
                \<and> foldsMade g1 = foldsMade g + of_nat (length new)))
       \<and> (\<forall>t0 ob l resp g c ps1 g1.
            since t0 (now ob) \<le> gameActivityTimeout
          \<and> incoming ob = Line l \<and> unmarshal l = Inr resp
          \<and> Type resp = ''action_player_bet''
          \<and> PlayerID (Player (State resp)) = username ps
          \<and> gameLoopBody t0 ob ps g = (c, ps1, g1) \<longrightarrow>
            hasPerformedAllIn ps1
          \<and> (outgoing ob = SendOk \<longrightarrow>
                c = Continue
              \<and> conn ps1 = conn ps @ [JObject [(''action'', JString ''bet''),
                                                (''amount'', JNumber (- 1))]]
              \<and> foldsMade g1 = foldsMade g + 1
              \<and> allInsMade g1 = allInsMade g)
          \<and> (outgoing ob \<noteq> SendOk \<longrightarrow>
                c = Return \<and> conn ps1 = conn ps \<and> counters g1 = counters g))"
proof (intro conjI allI impI)
  fix t0 obs g c ps1 g1
  assume "gameLoop t0 obs ps g = (c, ps1, g1)"
  then have e: "loopEffect ps g ps1 g1" by (rule gameLoop_loopEffect)
  from e assms show "hasPerformedAllIn ps1" by (simp add: loopEffect_def)
  from e assms show "allInsMade g1 = allInsMade g" by (auto simp: loopEffect_def)
  from e assms obtain new lg where
    "conn ps1 = conn ps @ new" "stdout g1 = stdout g @ lg"
    "\<forall>p\<in>set new. betAmount p = Some (- 1)"
    "\<forall>p\<in>set (sendingLines lg). betAmount p = Some (- 1)"
    "foldsMade g1 = foldsMade g + of_nat (length new)"
    unfolding loopEffect_def by blast
  then show "\<exists>new lg. conn ps1 = conn ps @ new \<and> stdout g1 = stdout g @ lg
                \<and> (\<forall>p\<in>set new \<union> set (sendingLines lg).
                       p = JObject [(''action'', JString ''bet''), (''amount'', JNumber (- 1))])
                \<and> foldsMade g1 = foldsMade g + of_nat (length new)"
    by (auto simp: betAmount_Some)
next
  fix t0 ob l resp g c ps1 g1
  assume h: "since t0 (now ob) \<le> gameActivityTimeout
          \<and> incoming ob = Line l \<and> unmarshal l = Inr resp
          \<and> Type resp = ''action_player_bet''
          \<and> PlayerID (Player (State resp)) = username ps
          \<and> gameLoopBody t0 ob ps g = (c, ps1, g1)"
  let ?g0 = "logVerbose ps (LogReceived l) g"
  from h bet_turn_pass [of t0 ob l resp ps g]
  have b: "onActionPlayerBet resp (outgoing ob) ps ?g0 = (c, ps1, g1)"
    by simp
  from h have me: "PlayerID (Player (State resp)) = username ps" by simp
  have g0: "counters ?g0 = counters g" by simp
  from h have "gameLoopBody t0 ob ps g = (c, ps1, g1)" by simp
  then have "loopEffect ps g ps1 g1" by (rule gameLoopBody_loopEffect)
  with assms show "hasPerformedAllIn ps1" by (simp add: loopEffect_def)
  {
    assume ok: "outgoing ob = SendOk"
    from assms have "hasPerformedAllIn ps \<or> Chips (Player (State resp)) \<le> 0" by simp
    from fold_sent [OF me this, of ?g0 c ps1 g1] b ok
    show "c = Continue" 
      and "conn ps1 = conn ps @ [JObject [(''action'', JString ''bet''),
                                                (''amount'', JNumber (- 1))]]"
      and "foldsMade g1 = foldsMade g + 1"
      and "allInsMade g1 = allInsMade g"
      by (simp_all add: logVerbose_eq)
  }
  {
    assume nok: "outgoing ob \<noteq> SendOk"
    from bet_turn_write_fails [OF me nok b] g0
    show "c = Return" and "conn ps1 = conn ps" and "counters g1 = counters g" by simp_all
  }
qed

theorem flag_stays_and_folds_follow_witness:
  "(case gameLoop 0 [\<lparr>now = 5, incoming = Line (betTurn ''p7'' 1000), outgoing = SendOk\<rparr>,
                     \<lparr>now = 9, incoming = Line (betTurn ''p7'' 0), outgoing = SendOk\<rparr>]
           allInP7 zeroGlobals of
      (c, ps1, g1) \<Rightarrow>
        hasPerformedAllIn ps1 \<and> allInsMade g1 = 0 \<and> foldsMade g1 = 2
      \<and> conn ps1 = [JObject [(''action'', JString ''bet''), (''amount'', JNumber 500)],
                    JObject [(''action'', JString ''bet''), (''amount'', JNumber (- 1))],
                    JObject [(''action'', JString ''bet''), (''amount'', JNumber (- 1))]])"
proof -
  let ?obs = "[\<lparr>now = 5, incoming = Line (betTurn ''p7'' 1000), outgoing = SendOk\<rparr>,
               \<lparr>now = 9, incoming = Line (betTurn ''p7'' 0), outgoing = SendOk\<rparr>]"
  obtain c ps1 g1 where r: "gameLoop 0 ?obs allInP7 zeroGlobals = (c, ps1, g1)"
    by (cases "gameLoop 0 ?obs allInP7 zeroGlobals")
  have h: "hasPerformedAllIn allInP7" by (simp add: allInP7_def)
  from flag_stays_and_folds_follow [OF h] r
  have a: "hasPerformedAllIn ps1 \<and> allInsMade g1 = allInsMade zeroGlobals" by blast
  have "conn ps1 = [JObject [(''action'', JString ''bet''), (''amount'', JNumber 500)],
                    JObject [(''action'', JString ''bet''), (''amount'', JNumber (- 1))],
                    JObject [(''action'', JString ''bet''), (''amount'', JNumber (- 1))]]
      \<and> foldsMade g1 = 2"
    using r
    by (auto simp: gameLoopBody_def since_def gameActivityTimeout_def second_def
      readServerMessage_def unmarshal_betTurn betResponse_def onResponse_def
      onActionPlayerBet_def allInP7_def Let_def sendJSON_def logVerbose_eq marshal_fold
      zeroGlobals_def simp del: marshal.simps)
  with a show ?thesis unfolding r by (simp add: zeroGlobals_def)
qed

text \<open>
  The claim as stated, with a fold sent and counted on every later turn, fails when the
  write of the fold fails: the session leaves the loop, the fold is not on the
  connection and the fold counter is still 0.
\<close>

theorem fold_after_all_in_write_fails_counterexample:
  "gameLoopBody 0 \<lparr>now = 5, incoming = Line (betTurn ''p7'' 1000), outgoing = WriteFails\<rparr>
       allInP7 zeroGlobals
     = (Return, allInP7,
        zeroGlobals\<lparr>stdout :=
          [(''[p7] '', LogReceived (betTurn ''p7'' 1000)),
           (''[p7] '', LogMyTurn [] 1000),
           (''[p7] '', LogAlreadyAllIn),
           (''[p7] '', LogSending (JObject [(''action'', JString ''bet''), (''amount'', JNumber (- 1))])),
           (''[p7] '', LogErrorSendingData),
           (''[p7] '', LogErrorSendingFold ErrWrite)]\<rparr>)
   \<and> hasPerformedAllIn allInP7
   \<and> conn allInP7 = [JObject [(''action'', JString ''bet''), (''amount'', JNumber 500)]]
   \<and> foldsMade zeroGlobals = 0"
  by (simp add: gameLoopBody_def since_def gameActivityTimeout_def second_def
      readServerMessage_def unmarshal_betTurn betResponse_def onResponse_def
      onActionPlayerBet_def allInP7_def Let_def sendJSON_def logVerbose_eq marshal_fold
      zeroGlobals_def del: marshal.simps)

subsection \<open>Registering, joining and the whole session\<close>

lemma register_result:
  assumes "register ps pw sa ra g = (ok, ps1, g1)"
  shows "username ps1 = username ps \<and> logPrefix ps1 = logPrefix ps
       \<and> hasPerformedAllIn ps1 = hasPerformedAllIn ps
       \<and> conn ps1 = (if sa = SendOk
                      then conn ps @ [marshalRegistrationMsg \<lparr>Username = username ps, Password = pw\<rparr>]
                      else conn ps)
       \<and> successfulRegistrations g1 = successfulRegistrations g
       \<and> gamesJoined g1 = gamesJoined g
       \<and> allInsMade g1 = allInsMade g
       \<and> foldsMade g1 = foldsMade g
       \<and> failedRegistrations g1 = (if ok then failedRegistrations g else failedRegistrations g + 1)
       \<and> (ok \<longleftrightarrow> sa = SendOk
              \<and> (case ra of
                   Line l \<Rightarrow>
                     (case unmarshal l of
                        Inr resp \<Rightarrow> Type resp = ''event_player_leaderboard_entry_start''
                      | Inl err \<Rightarrow> False)
                 | _ \<Rightarrow> False))
       \<and> (\<exists>lg. stdout g1 = stdout g @ lg
              \<and> set (sendingLines lg)
                  \<subseteq> {marshalRegistrationMsg \<lparr>Username = username ps, Password = pw\<rparr>})"
  using assms
  by (cases sa; cases ra)
    (auto simp: register_def Let_def sendJSON_def readServerMessage_def logVerbose_eq
      split: if_splits sum.splits)

lemma joinGame_result:
  assumes "joinGame ps sa g = (ok, ps1, g1)"
  shows "username ps1 = username ps \<and> logPrefix ps1 = logPrefix ps
       \<and> hasPerformedAllIn ps1 = hasPerformedAllIn ps
       \<and> conn ps1 = (if sa = SendOk then conn ps @ [JObject [(''action'', JString ''join'')]]
                      else conn ps)
       \<and> counters g1 = counters g
       \<and> (ok \<longleftrightarrow> sa = SendOk)
       \<and> (\<exists>lg. stdout g1 = stdout g @ lg
              \<and> set (sendingLines lg) \<subseteq> {JObject [(''action'', JString ''join'')]})"
  using assms
  by (cases sa)
    (auto simp: joinGame_def Let_def sendJSON_def logVerbose_eq counters_def marshal_join
      simp del: marshal.simps split: if_splits)

lemma managePlayerSession_cases [consumes 1, case_names dial register join loop]:
  assumes "managePlayerSession ident a g = (ret, ps1, g1)"
  obtains
    (dial) "\<not> dialOk a" "ret" "ps1 = initialState ident"
      "g1 = (logVerbose (initialState ident) LogErrorDialing g)
              \<lparr>failedRegistrations := failedRegistrations g + 1\<rparr>"
  | (register) "dialOk a" "ret"
      "register (initialState ident) (basePassword @ Itoa ident) (regSend a) (regRead a) g
         = (False, ps1, g1)"
  | (join) psr gr where "dialOk a" "ret"
      "register (initialState ident) (basePassword @ Itoa ident) (regSend a) (regRead a) g
         = (True, psr, gr)"
      "joinGame psr (joinSend a)
         (logVerbose psr LogSuccessfullyRegistered
            (gr\<lparr>successfulRegistrations := successfulRegistrations gr + 1\<rparr>))
         = (False, ps1, g1)"
  | (loop) psr gr psj gj c gl where "dialOk a"
      "register (initialState ident) (basePassword @ Itoa ident) (regSend a) (regRead a) g
         = (True, psr, gr)"
      "joinGame psr (joinSend a)
         (logVerbose psr LogSuccessfullyRegistered
            (gr\<lparr>successfulRegistrations := successfulRegistrations gr + 1\<rparr>))
         = (True, psj, gj)"
      "gameLoop (gameStart a) (passes a) psj
         (logVerbose psj LogSuccessfullySentJoin (gj\<lparr>gamesJoined := gamesJoined gj + 1\<rparr>))
         = (c, ps1, gl)"
      "ret \<longleftrightarrow> c = Return"
      "g1 = (if c = Return then logVerbose ps1 LogSessionEnded gl else gl)"
proof (cases "dialOk a")
  case False
  with assms dial show ?thesis
    by (auto simp: managePlayerSession_def Let_def initialState_def logVerbose_eq)
next
  case d: True
  obtain ok psr gr where
    r: "register (initialState ident) (basePassword @ Itoa ident) (regSend a) (regRead a) g
          = (ok, psr, gr)"
    by (cases "register (initialState ident) (basePassword @ Itoa ident) (regSend a) (regRead a) g")
  show ?thesis
  proof (cases ok)
    case False
    with assms d r register show ?thesis
      by (auto simp: managePlayerSession_def Let_def initialState_def)
  next
    case ok: True
    let ?g2 = "logVerbose psr LogSuccessfullyRegistered
            (gr\<lparr>successfulRegistrations := successfulRegistrations gr + 1\<rparr>)"
    obtain okj psj gj where j: "joinGame psr (joinSend a) ?g2 = (okj, psj, gj)"
      by (cases "joinGame psr (joinSend a) ?g2")
    show ?thesis
    proof (cases okj)
      case False
      with assms d r ok j join [of psr gr] show ?thesis
        by (auto simp: managePlayerSession_def Let_def initialState_def)
    next
      case okj: True
      let ?g4 = "logVerbose psj LogSuccessfullySentJoin (gj\<lparr>gamesJoined := gamesJoined gj + 1\<rparr>)"
      obtain c psl gl where l: "gameLoop (gameStart a) (passes a) psj ?g4 = (c, psl, gl)"
        by (cases "gameLoop (gameStart a) (passes a) psj ?g4")
      from assms d r ok j okj l have
        "ret \<longleftrightarrow> c = Return" "ps1 = psl"
        "g1 = (if c = Return then logVerbose psl LogSessionEnded gl else gl)"
        by (cases c; auto simp: managePlayerSession_def Let_def initialState_def)+
      with d r ok j okj l loop [of psr gr psj gj c gl] show ?thesis by simp
    qed
  qed
qed

lemma registrationAccepted_iff:
  "registrationAccepted a \<longleftrightarrow>
     dialOk a \<and> (\<exists>ps1 g1. register ps pw (regSend a) (regRead a) g = (True, ps1, g1))"
proof (cases "register ps pw (regSend a) (regRead a) g")
  case (fields ok ps1 g1)
  from register_result [OF this] show ?thesis
    by (simp add: registrationAccepted_def fields)
qed

text \<open>Each session counts its registration once, as a success or as a failure.\<close>

lemma session_registration_counters:
  assumes "managePlayerSession ident a g = (ret, ps1, g1)"
  shows "successfulRegistrations g1 =
           (if registrationAccepted a then successfulRegistrations g + 1
            else successfulRegistrations g)
       \<and> failedRegistrations g1 =
           (if registrationAccepted a then failedRegistrations g
            else failedRegistrations g + 1)"
  using assms
proof (cases rule: managePlayerSession_cases)
  case dial
  then show ?thesis by (simp add: registrationAccepted_def logVerbose_eq)
next
  case register
  from register(3) have "\<not> registrationAccepted a"
    by (simp add: registrationAccepted_iff [of a "initialState ident" "basePassword @ Itoa ident" g])
  with register_result [OF register(3)] show ?thesis by simp
next
  case (join psr gr)
  from join(1,3) have acc: "registrationAccepted a"
    by (simp add: registrationAccepted_iff [of a "initialState ident" "basePassword @ Itoa ident" g])
  from joinGame_result [OF join(4)] have
    "successfulRegistrations g1 = successfulRegistrations gr + 1"
    "failedRegistrations g1 = failedRegistrations gr"
    by (simp_all add: counters_def logVerbose_eq)
  with register_result [OF join(3)] acc show ?thesis by simp
next
  case (loop psr gr psj gj c gl)
  from loop(1,2) have acc: "registrationAccepted a"
    by (simp add: registrationAccepted_iff [of a "initialState ident" "basePassword @ Itoa ident" g])
  from joinGame_result [OF loop(3)] have
    "successfulRegistrations gj = successfulRegistrations gr + 1"
    "failedRegistrations gj = failedRegistrations gr"
    by (simp_all add: counters_def logVerbose_eq)
  moreover from gameLoop_loopEffect [OF loop(4)] have
    "successfulRegistrations gl = successfulRegistrations gj"
    "failedRegistrations gl = failedRegistrations gj"
    by (simp_all add: loopEffect_def logVerbose_eq)
  moreover from loop(6) have
    "successfulRegistrations g1 = successfulRegistrations gl"
    "failedRegistrations g1 = failedRegistrations gl"
    by (simp_all add: logVerbose_eq)
  ultimately show ?thesis using register_result [OF loop(2)] acc by simp
qed

text \<open>The loop returns no later than the first pass that finds the deadline passed.\<close>

lemma gameLoop_returns:
  assumes "list_ex (\<lambda>ob. gameActivityTimeout < since t0 (now ob)) obs"
    and "gameLoop t0 obs ps g = (c, ps1, g1)"
  shows "c = Return"
  using assms
proof (induction obs arbitrary: ps g)
  case Nil
  then show ?case by simp
next
  case (Cons ob obs)
  obtain c' ps' g' where b: "gameLoopBody t0 ob ps g = (c', ps', g')"
    by (cases "gameLoopBody t0 ob ps g")
  show ?case
  proof (cases c')
    case Return
    with Cons.prems(2) b show ?thesis by simp
  next
    case Continue
    with b have "\<not> gameActivityTimeout < since t0 (now ob)"
      by (auto simp: gameLoopBody_def)
    with Cons.prems(1) have "list_ex (\<lambda>ob. gameActivityTimeout < since t0 (now ob)) obs"
      by simp
    moreover from Cons.prems(2) b Continue have "gameLoop t0 obs ps' g' = (c, ps1, g1)"
      by simp
    ultimately show ?thesis by (rule Cons.IH)
  qed
qed

lemma session_returns:
  assumes "deadlineComes a" and "managePlayerSession ident a g = (ret, ps1, g1)"
  shows "ret"
  using assms(2)
proof (cases rule: managePlayerSession_cases)
  case (loop psr gr psj gj c gl)
  from assms(1) loop(4) have "c = Return"
    unfolding deadlineComes_def by (rule gameLoop_returns)
  with loop(5) show ?thesis by simp
qed simp_all

lemma acceptedCount_le: "acceptedCount n net \<le> n"
  unfolding acceptedCount_def using length_filter_le [of _ "[0..<n]"] by simp

lemma acceptedCount_Suc:
  "acceptedCount (Suc n) net =
     (if registrationAccepted (net n) then Suc (acceptedCount n net) else acceptedCount n net)"
  by (simp add: acceptedCount_def)

lemma sint_of_nat_small:
  assumes "k < 2 ^ 31"
  shows "sint (of_nat k :: int32) = int k"
proof -
  have "int k < 2 ^ 31" using assms by simp
  then have "signed_take_bit 31 (int k) = int k"
    by (intro signed_take_bit_int_eq_self) simp_all
  then show ?thesis by (simp add: signed_of_nat)
qed

lemma runSessions_counts:
  assumes "\<forall>i<n. deadlineComes (net i)"
  shows "\<exists>g1. runSessions n net g = Some g1
           \<and> successfulRegistrations g1
               = successfulRegistrations g + of_nat (acceptedCount n net)
           \<and> failedRegistrations g1
               = failedRegistrations g + of_nat (n - acceptedCount n net)"
  using assms
proof (induction n)
  case 0
  then show ?case by (simp add: acceptedCount_def)
next
  case (Suc n)
  then obtain g1 where g1: "runSessions n net g = Some g1"
    "successfulRegistrations g1 = successfulRegistrations g + of_nat (acceptedCount n net)"
    "failedRegistrations g1 = failedRegistrations g + of_nat (n - acceptedCount n net)"
    by auto
  obtain ret ps2 g2 where m: "managePlayerSession (int n) (net n) g1 = (ret, ps2, g2)"
    by (cases "managePlayerSession (int n) (net n) g1")
  from Suc.prems have "deadlineComes (net n)" by simp
  then have ret by (rule session_returns [OF _ m])
  with g1(1) m have r: "runSessions (Suc n) net g = Some g2" by simp
  have le: "acceptedCount n net \<le> n" by (rule acceptedCount_le)
  show ?case
  proof (cases "registrationAccepted (net n)")
    case True
    with session_registration_counters [OF m] g1(2,3) le r show ?thesis
      by (simp add: acceptedCount_Suc)
  next
    case False
    from le have "Suc n - acceptedCount n net = Suc (n - acceptedCount n net)" by simp
    with False session_registration_counters [OF m] g1(2,3) r show ?thesis
      by (simp add: acceptedCount_Suc)
  qed
qed

subsection \<open>Leaving the loop without a count, in the session\<close>

text \<open>
  C8. When the clock at the top of a pass shows more than \<open>gameActivityTimeout\<close>
  since the entry into the game loop, or the read of the pass fails (the deadline cannot
  be set, the line cannot be read, or it cannot be decoded), \<open>gameLoop\<close> returns in
  that pass: the session state is untouched, so nothing is sent, and none of the five
  counters changes. On the timeout path the only effect is the line
  \<open>Game activity timeout. Ending session.\<close> A session that leaves its game loop
  this way in the first pass returns with its registration and its join counted and
  with the failure, all-in and fold counters as they were.
\<close>

theorem timeout_and_read_error_leave_counters:
  assumes "since t0 (now ob) > gameActivityTimeout
         \<or> incoming ob = SetReadDeadlineFails \<or> incoming ob = ReadStringFails
         \<or> incoming ob = Line Undecodable"
  shows "(\<exists>g1. gameLoopBody t0 ob ps g = (Return, ps, g1)
            \<and> gameLoop t0 (ob # obs) ps g = (Return, ps, g1)
            \<and> counters g1 = counters g
            \<and> (since t0 (now ob) > gameActivityTimeout
                 \<longrightarrow> g1 = g\<lparr>stdout := stdout g @ [(logPrefix ps, LogGameActivityTimeout)]\<rparr>))
       \<and> (registrationAccepted a \<and> joinSend a = SendOk
          \<and> gameStart a = t0 \<and> passes a = ob # obs
          \<and> managePlayerSession ident a g = (ret, ps2, g2) \<longrightarrow>
            ret
          \<and> successfulRegistrations g2 = successfulRegistrations g + 1
          \<and> failedRegistrations g2 = failedRegistrations g
          \<and> gamesJoined g2 = gamesJoined g + 1
          \<and> allInsMade g2 = allInsMade g
          \<and> foldsMade g2 = foldsMade g)"
proof (intro conjI impI)
  show "\<exists>g1. gameLoopBody t0 ob ps g = (Return, ps, g1)
            \<and> gameLoop t0 (ob # obs) ps g = (Return, ps, g1)
            \<and> counters g1 = counters g
            \<and> (since t0 (now ob) > gameActivityTimeout
                 \<longrightarrow> g1 = g\<lparr>stdout := stdout g @ [(logPrefix ps, LogGameActivityTimeout)]\<rparr>)"
    using assms by (rule gameLoop_exit_pass)
next
  assume h: "registrationAccepted a \<and> joinSend a = SendOk
          \<and> gameStart a = t0 \<and> passes a = ob # obs
          \<and> managePlayerSession ident a g = (ret, ps2, g2)"
  then have m: "managePlayerSession ident a g = (ret, ps2, g2)" by simp
  from h session_registration_counters [OF m]
  have reg: "successfulRegistrations g2 = successfulRegistrations g + 1"
    "failedRegistrations g2 = failedRegistrations g"
    by simp_all
  from h have acc: "registrationAccepted a" by simp
  have rest: "ret \<and> gamesJoined g2 = gamesJoined g + 1
          \<and> allInsMade g2 = allInsMade g \<and> foldsMade g2 = foldsMade g"
    using m
  proof (cases rule: managePlayerSession_cases)
    case dial
    with acc show ?thesis by (simp add: registrationAccepted_def)
  next
    case register
    with acc show ?thesis
      by (simp add: registrationAccepted_iff
          [of a "initialState ident" "basePassword @ Itoa ident" g])
  next
    case (join psr gr)
    from joinGame_result [OF join(4)] h show ?thesis by simp
  next
    case (loop psr gr psj gj c gl)
    let ?g4 = "logVerbose psj LogSuccessfullySentJoin (gj\<lparr>gamesJoined := gamesJoined gj + 1\<rparr>)"
    from gameLoop_exit_pass [OF assms, of psj ?g4 obs] loop(4) h
    have c: "c = Return" and gl: "counters gl = counters ?g4" by auto
    from register_result [OF loop(2)] joinGame_result [OF loop(3)]
    have "gamesJoined gj = gamesJoined g" "allInsMade gj = allInsMade g"
      "foldsMade gj = foldsMade g"
      by (simp_all add: counters_def logVerbose_eq)
    with c gl loop(5,6) show ?thesis by (simp add: counters_def logVerbose_eq)
  qed
  with reg show "ret" and "successfulRegistrations g2 = successfulRegistrations g + 1"
    and "failedRegistrations g2 = failedRegistrations g"
    and "gamesJoined g2 = gamesJoined g + 1"
    and "allInsMade g2 = allInsMade g" and "foldsMade g2 = foldsMade g"
    by simp_all
qed

theorem timeout_and_read_error_leave_counters_witness:
  "gameLoop 0 [\<lparr>now = 60000000001, incoming = Line (betTurn ''p7'' 500), outgoing = SendOk\<rparr>]
       sessionP7 zeroGlobals
     = (Return, sessionP7, zeroGlobals\<lparr>stdout := [(''[p7] '', LogGameActivityTimeout)]\<rparr>)
   \<and> counters (zeroGlobals\<lparr>stdout := [(''[p7] '', LogGameActivityTimeout)]\<rparr>)
       = counters zeroGlobals"
proof -
  let ?ob = "\<lparr>now = 60000000001, incoming = Line (betTurn ''p7'' 500), outgoing = SendOk\<rparr>"
  have h: "since 0 (now ?ob) > gameActivityTimeout
         \<or> incoming ?ob = SetReadDeadlineFails \<or> incoming ?ob = ReadStringFails
         \<or> incoming ?ob = Line Undecodable"
    by (simp add: since_def gameActivityTimeout_def second_def)
  have t: "since 0 (now ?ob) > gameActivityTimeout"
    by (simp add: since_def gameActivityTimeout_def second_def)
  from timeout_and_read_error_leave_counters [OF h, THEN conjunct1, of sessionP7 zeroGlobals "[]"]
  obtain g1 where
    "gameLoop 0 [?ob] sessionP7 zeroGlobals = (Return, sessionP7, g1)"
    "counters g1 = counters zeroGlobals"
    "g1 = zeroGlobals\<lparr>stdout := stdout zeroGlobals @ [(logPrefix sessionP7, LogGameActivityTimeout)]\<rparr>"
    using t by blast
  then show ?thesis by (simp add: sessionP7_def zeroGlobals_def)
qed

subsection \<open>Every session is counted once\<close>

lemma runSessions_sum:
  assumes "\<forall>i<N. deadlineComes (net i)"
  shows "\<exists>g1. runSessions N net zeroGlobals = Some g1
            \<and> successfulRegistrations g1 + failedRegistrations g1 = of_nat N
            \<and> (N < 2 ^ 31 \<longrightarrow>
                 sint (successfulRegistrations g1) + sint (failedRegistrations g1) = int N)"
proof -
  from runSessions_counts [OF assms, of zeroGlobals] obtain g1 where
    g1: "runSessions N net zeroGlobals = Some g1"
      "successfulRegistrations g1 = of_nat (acceptedCount N net)"
      "failedRegistrations g1 = of_nat (N - acceptedCount N net)"
    by (auto simp: zeroGlobals_def)
  have le: "acceptedCount N net \<le> N" by (rule acceptedCount_le)
  have "successfulRegistrations g1 + failedRegistrations g1
          = of_nat (acceptedCount N net + (N - acceptedCount N net))"
    using g1(2,3) by simp
  then have sum: "successfulRegistrations g1 + failedRegistrations g1 = of_nat N"
    using le by simp
  have "sint (successfulRegistrations g1) + sint (failedRegistrations g1) = int N"
    if "N < 2 ^ 31"
  proof -
    from that le have "acceptedCount N net < 2 ^ 31" "N - acceptedCount N net < 2 ^ 31"
      by simp_all
    then have "sint (successfulRegistrations g1) = int (acceptedCount N net)"
      "sint (failedRegistrations g1) = int (N - acceptedCount N net)"
      using g1(2,3) by (simp_all add: sint_of_nat_small)
    with le show ?thesis by simp
  qed
  with g1(1) sum show ?thesis by blast
qed

text \<open>
  C5. Every session adds 1 to exactly one of the two registration counters, exactly
  once: to \<open>successfulRegistrations\<close> when the dial and the write succeed and the
  line read decodes to a response of type \<open>event_player_leaderboard_entry_start\<close>,
  to \<open>failedRegistrations\<close> in every other case (the dial fails, the write fails,
  the read fails, the line does not decode, the response has a non-zero code or any
  other shape). A session whose passes go on until the activity deadline has passed
  returns. So a run of \<open>N\<close> such sessions ends, and the two counters then add up to
  \<open>N\<close>, as 32-bit values and, for fewer than \<open>2 ^ 31\<close> sessions, as the signed
  numbers that \<open>main\<close> prints; for the \<open>numPlayersToCreate\<close> sessions of \<open>main\<close>
  the printed numbers add up to 1000000.
\<close>

theorem every_session_counted_once:
  assumes "\<forall>i<N. deadlineComes (net i)"
  shows "(\<exists>g1. runSessions N net zeroGlobals = Some g1
            \<and> successfulRegistrations g1 + failedRegistrations g1 = of_nat N
            \<and> (N < 2 ^ 31 \<longrightarrow>
                 sint (successfulRegistrations g1) + sint (failedRegistrations g1) = int N))
       \<and> (\<forall>ident a g ret ps1 g1. managePlayerSession ident a g = (ret, ps1, g1) \<longrightarrow>
             (deadlineComes a \<longrightarrow> ret)
           \<and> (if dialOk a \<and> regSend a = SendOk
                  \<and> (\<exists>l resp. regRead a = Line l \<and> unmarshal l = Inr resp
                        \<and> Type resp = ''event_player_leaderboard_entry_start'')
               then successfulRegistrations g1 = successfulRegistrations g + 1
                  \<and> failedRegistrations g1 = failedRegistrations g
               else successfulRegistrations g1 = successfulRegistrations g
                  \<and> failedRegistrations g1 = failedRegistrations g + 1))
       \<and> ((\<forall>i<numPlayersToCreate. deadlineComes (net' i)) \<longrightarrow>
             (\<exists>g1. mainRun net' = Some g1
                \<and> sint (successfulRegistrations g1) + sint (failedRegistrations g1)
                    = 1000000))"
proof (intro conjI allI impI)
  show "\<exists>g1. runSessions N net zeroGlobals = Some g1
            \<and> successfulRegistrations g1 + failedRegistrations g1 = of_nat N
            \<and> (N < 2 ^ 31 \<longrightarrow>
                 sint (successfulRegistrations g1) + sint (failedRegistrations g1) = int N)"
    using assms by (rule runSessions_sum)
next
  fix ident a g ret ps1 g1
  assume m: "managePlayerSession ident a g = (ret, ps1, g1)"
  { assume "deadlineComes a" then show ret by (rule session_returns [OF _ m]) }
  have "registrationAccepted a \<longleftrightarrow>
          dialOk a \<and> regSend a = SendOk
        \<and> (\<exists>l resp. regRead a = Line l \<and> unmarshal l = Inr resp
              \<and> Type resp = ''event_player_leaderboard_entry_start'')"
    by (auto simp: registrationAccepted_def split: read_answer.splits sum.splits)
  with session_registration_counters [OF m]
  show "if dialOk a \<and> regSend a = SendOk
                  \<and> (\<exists>l resp. regRead a = Line l \<and> unmarshal l = Inr resp
                        \<and> Type resp = ''event_player_leaderboard_entry_start'')
               then successfulRegistrations g1 = successfulRegistrations g + 1
                  \<and> failedRegistrations g1 = failedRegistrations g
               else successfulRegistrations g1 = successfulRegistrations g
                  \<and> failedRegistrations g1 = failedRegistrations g + 1"
    by simp
next
  assume "\<forall>i<numPlayersToCreate. deadlineComes (net' i)"
  from runSessions_sum [OF this]
  show "\<exists>g1. mainRun net' = Some g1
                \<and> sint (successfulRegistrations g1) + sint (failedRegistrations g1)
                    = 1000000"
    by (auto simp: mainRun_def numPlayersToCreate_def)
qed

theorem every_session_counted_once_witness:
  "\<exists>g1. runSessions 2 exampleNet zeroGlobals = Some g1
       \<and> successfulRegistrations g1 + failedRegistrations g1 = 2
       \<and> sint (successfulRegistrations g1) + sint (failedRegistrations g1) = 2"
proof -
  have h: "\<forall>i<2. deadlineComes (exampleNet i)"
    by (simp add: deadlineComes_def exampleNet_def since_def gameActivityTimeout_def second_def)
  from every_session_counted_once [OF h] obtain g1 where
    "runSessions 2 exampleNet zeroGlobals = Some g1"
    "successfulRegistrations g1 + failedRegistrations g1 = of_nat 2"
    "(2::nat) < 2 ^ 31 \<longrightarrow>
       sint (successfulRegistrations g1) + sint (failedRegistrations g1) = int 2"
    by blast
  then show ?thesis by simp
qed

lemma session_payloads:
  assumes "managePlayerSession ident a g = (ret, ps1, g1)"
  shows "\<exists>lg. stdout g1 = stdout g @ lg
           \<and> (\<forall>p\<in>set (conn ps1) \<union> set (sendingLines lg).
                 p = registrationPayload ident \<or> p = joinPayload
               \<or> (\<exists>n. betAmount p = Some n \<and> (0 < n \<or> n = - 1)))"
  using assms
proof (cases rule: managePlayerSession_cases)
  case dial
  then show ?thesis by (simp add: logVerbose_eq initialState_def)
next
  case register
  from register_result [OF register(3)] show ?thesis
    by (auto simp: initialState_def registrationPayload_def marshalRegistrationMsg_def)
next
  case (join psr gr)
  from register_result [OF join(3)] obtain lg1 where
    r: "stdout gr = stdout g @ lg1" "set (sendingLines lg1) \<subseteq> {registrationPayload ident}"
      "set (conn psr) \<subseteq> {registrationPayload ident}"
    by (auto simp: initialState_def registrationPayload_def marshalRegistrationMsg_def
        split: if_splits)
  from joinGame_result [OF join(4)] obtain lg2 where
    j: "stdout g1 = stdout gr @ [(logPrefix psr, LogSuccessfullyRegistered)] @ lg2"
      "set (sendingLines lg2) \<subseteq> {joinPayload}"
      "set (conn ps1) \<subseteq> set (conn psr) \<union> {joinPayload}"
    by (auto simp: logVerbose_eq joinPayload_def split: if_splits)
  from r j have "stdout g1 = stdout g @ (lg1 @ [(logPrefix psr, LogSuccessfullyRegistered)] @ lg2)"
    by simp
  moreover from r j have
    "\<forall>p\<in>set (conn ps1)
        \<union> set (sendingLines (lg1 @ [(logPrefix psr, LogSuccessfullyRegistered)] @ lg2)).
       p = registrationPayload ident \<or> p = joinPayload"
    by auto
  ultimately show ?thesis by blast
next
  case (loop psr gr psj gj c gl)
  from register_result [OF loop(2)] obtain lg1 where
    r: "stdout gr = stdout g @ lg1" "set (sendingLines lg1) \<subseteq> {registrationPayload ident}"
      "set (conn psr) \<subseteq> {registrationPayload ident}"
    by (auto simp: initialState_def registrationPayload_def marshalRegistrationMsg_def
        split: if_splits)
  from joinGame_result [OF loop(3)] obtain lg2 where
    j: "stdout gj = stdout gr @ [(logPrefix psr, LogSuccessfullyRegistered)] @ lg2"
      "set (sendingLines lg2) \<subseteq> {joinPayload}"
      "set (conn psj) \<subseteq> set (conn psr) \<union> {joinPayload}"
    by (auto simp: logVerbose_eq joinPayload_def split: if_splits)
  from gameLoop_loopEffect [OF loop(4)] obtain new lg3 where
    l: "conn ps1 = conn psj @ new"
      "\<forall>p\<in>set new. \<exists>n. betAmount p = Some n \<and> (0 < n \<or> n = - 1)"
      "stdout gl = stdout gj @ [(logPrefix psj, LogSuccessfullySentJoin)] @ lg3"
      "\<forall>p\<in>set (sendingLines lg3). \<exists>n. betAmount p = Some n \<and> (0 < n \<or> n = - 1)"
    unfolding loopEffect_def by (auto simp: logVerbose_eq)
  let ?lg = "lg1 @ [(logPrefix psr, LogSuccessfullyRegistered)] @ lg2
             @ [(logPrefix psj, LogSuccessfullySentJoin)] @ lg3
             @ (if c = Return then [(logPrefix ps1, LogSessionEnded)] else [])"
  from r j l loop(6) have "stdout g1 = stdout g @ ?lg"
    by (simp add: logVerbose_eq)
  moreover from r j l have
    "\<forall>p\<in>set (conn ps1) \<union> set (sendingLines ?lg).
       p = registrationPayload ident \<or> p = joinPayload
     \<or> (\<exists>n. betAmount p = Some n \<and> (0 < n \<or> n = - 1))"
    by auto
  ultimately show ?thesis by blast
qed

subsection \<open>The encoding of actions\<close>

text \<open>
  C7. An action is encoded without the key \<open>amount\<close> exactly when its \<open>Amount\<close>
  is the nil pointer. The join action is \<^verbatim>\<open>{"action":"join"}\<close>, with no
  amount; a bet and a fold carry the key \<open>amount\<close> with an integer. Over a whole
  session, every payload written to the connection or shown in a line
  \<open>Sending: ...\<close> is the registration, the join without an amount, or a bet with an
  amount: among the actions, the amount is missing exactly for the join.
\<close>

theorem amount_omitted_exactly_for_join:
  "(json_field ''amount'' (marshalActionMsg m) = None \<longleftrightarrow> Amount m = None)
 \<and> marshalActionMsg joinMsg = JObject [(''action'', JString ''join'')]
 \<and> marshalActionMsg (betMsg k) = JObject [(''action'', JString ''bet''), (''amount'', JNumber k)]
 \<and> marshalActionMsg foldMsg = JObject [(''action'', JString ''bet''), (''amount'', JNumber (- 1))]
 \<and> (managePlayerSession ident a g = (ret, ps1, g1) \<longrightarrow>
       (\<exists>lg. stdout g1 = stdout g @ lg
          \<and> (\<forall>p\<in>set (conn ps1) \<union> set (sendingLines lg).
                (p = JObject [(''username'', JString (baseUsername @ Itoa ident)),
                              (''password'', JString (basePassword @ Itoa ident))]
                 \<or> p = JObject [(''action'', JString ''join'')]
                 \<or> (\<exists>n. p = JObject [(''action'', JString ''bet''), (''amount'', JNumber n)]))
              \<and> (json_field ''action'' p \<noteq> None \<longrightarrow>
                    (json_field ''amount'' p = None
                       \<longleftrightarrow> json_field ''action'' p = Some (JString ''join''))))))"
proof (intro conjI impI)
  show "json_field ''amount'' (marshalActionMsg m) = None \<longleftrightarrow> Amount m = None"
    by (cases "Amount m") (simp_all add: marshalActionMsg_def)
  show "marshalActionMsg joinMsg = JObject [(''action'', JString ''join'')]"
    using marshal_join by simp
  show "marshalActionMsg (betMsg k) = JObject [(''action'', JString ''bet''), (''amount'', JNumber k)]"
    using marshal_bet by simp
  show "marshalActionMsg foldMsg = JObject [(''action'', JString ''bet''), (''amount'', JNumber (- 1))]"
    using marshal_fold by simp
next
  assume "managePlayerSession ident a g = (ret, ps1, g1)"
  from session_payloads [OF this] obtain lg where
    lg: "stdout g1 = stdout g @ lg"
      "\<forall>p\<in>set (conn ps1) \<union> set (sendingLines lg).
                 p = registrationPayload ident \<or> p = joinPayload
               \<or> (\<exists>n. betAmount p = Some n \<and> (0 < n \<or> n = - 1))"
    by blast
  have "(p = JObject [(''username'', JString (baseUsername @ Itoa ident)),
                              (''password'', JString (basePassword @ Itoa ident))]
                 \<or> p = JObject [(''action'', JString ''join'')]
                 \<or> (\<exists>n. p = JObject [(''action'', JString ''bet''), (''amount'', JNumber n)]))
              \<and> (json_field ''action'' p \<noteq> None \<longrightarrow>
                    (json_field ''amount'' p = None
                       \<longleftrightarrow> json_field ''action'' p = Some (JString ''join'')))"
    if "p \<in> set (conn ps1) \<union> set (sendingLines lg)" for p
  proof -
    from lg(2) that consider "p = registrationPayload ident" | "p = joinPayload"
      | n where "betAmount p = Some n" by blast
    then show ?thesis
    proof cases
      case 1
      then show ?thesis by (simp add: registrationPayload_def)
    next
      case 2
      then show ?thesis by (simp add: joinPayload_def)
    next
      case 3
      then show ?thesis by (simp add: betAmount_Some)
    qed
  qed
  with lg(1) show "\<exists>lg. stdout g1 = stdout g @ lg
          \<and> (\<forall>p\<in>set (conn ps1) \<union> set (sendingLines lg).
                (p = JObject [(''username'', JString (baseUsername @ Itoa ident)),
                              (''password'', JString (basePassword @ Itoa ident))]
                 \<or> p = JObject [(''action'', JString ''join'')]
                 \<or> (\<exists>n. p = JObject [(''action'', JString ''bet''), (''amount'', JNumber n)]))
              \<and> (json_field ''action'' p \<noteq> None \<longrightarrow>
                    (json_field ''amount'' p = None
                       \<longleftrightarrow> json_field ''action'' p = Some (JString ''join''))))"
    by blast
qed

theorem amount_omitted_exactly_for_join_witness:
  "json_field ''amount'' (marshalActionMsg joinMsg) = None
 \<and> json_field ''amount'' (marshalActionMsg (betMsg 500)) = Some (JNumber 500)
 \<and> (case managePlayerSession 1 (exampleNet 1) zeroGlobals of
      (ret, ps1, g1) \<Rightarrow>
        list_all (\<lambda>p. json_field ''action'' p = None
                     \<or> (json_field ''amount'' p = None)
                         = (json_field ''action'' p = Some (JString ''join''))) (conn ps1))"
proof -
  obtain ret ps1 g1 where r: "managePlayerSession 1 (exampleNet 1) zeroGlobals = (ret, ps1, g1)"
    by (cases "managePlayerSession 1 (exampleNet 1) zeroGlobals")
  note t = amount_omitted_exactly_for_join [of joinMsg 500 1 "exampleNet 1" zeroGlobals ret ps1 g1]
  from t have 1: "json_field ''amount'' (marshalActionMsg joinMsg) = None"
    by (simp add: joinMsg_def)
  from t have 2: "json_field ''amount'' (marshalActionMsg (betMsg 500)) = Some (JNumber 500)"
    by simp
  from t r have "\<forall>p\<in>set (conn ps1). json_field ''action'' p \<noteq> None \<longrightarrow>
                    (json_field ''amount'' p = None
                       \<longleftrightarrow> json_field ''action'' p = Some (JString ''join''))"
    by blast
  then have "list_all (\<lambda>p. json_field ''action'' p = None
                     \<or> (json_field ''amount'' p = None)
                         = (json_field ''action'' p = Some (JString ''join''))) (conn ps1)"
    by (auto simp: list_all_iff)
  with 1 2 show ?thesis unfolding r by simp
qed

subsection \<open>The amount of a fold\<close>

text \<open>
  C10. The fold message has the amount \<open>- 1\<close>, and both fold branches (the forced
  fold with chips zero or negative, and the fold after the all-in) send it. Every
  payload that the game loop writes or shows in a line \<open>Sending: ...\<close> is a bet whose
  amount, when negative, is exactly \<open>- 1\<close>; over a whole session no payload carries
  any other negative amount.
\<close>

theorem every_fold_is_minus_one:
  "Amount foldMsg = Some (- 1)
 \<and> (gameLoop t0 obs ps g = (c, ps1, g1) \<longrightarrow>
       (\<exists>new lg. conn ps1 = conn ps @ new \<and> stdout g1 = stdout g @ lg
          \<and> (\<forall>p\<in>set new \<union> set (sendingLines lg).
                \<exists>n. p = JObject [(''action'', JString ''bet''), (''amount'', JNumber n)]
                   \<and> (n < 0 \<longrightarrow> n = - 1))))
 \<and> (managePlayerSession ident a g = (ret, ps2, g2) \<longrightarrow>
       (\<exists>lg. stdout g2 = stdout g @ lg
          \<and> (\<forall>p\<in>set (conn ps2) \<union> set (sendingLines lg).
                \<forall>n. json_field ''amount'' p = Some (JNumber n) \<longrightarrow> n < 0 \<longrightarrow> n = - 1)))
 \<and> (since t0 (now ob) \<le> gameActivityTimeout
      \<and> incoming ob = Line l \<and> unmarshal l = Inr resp
      \<and> Type resp = ''action_player_bet''
      \<and> PlayerID (Player (State resp)) = username ps
      \<and> (hasPerformedAllIn ps \<or> Chips (Player (State resp)) \<le> 0)
      \<and> outgoing ob = SendOk
      \<and> gameLoopBody t0 ob ps g = (c', ps', g') \<longrightarrow>
        conn ps' = conn ps @ [JObject [(''action'', JString ''bet''), (''amount'', JNumber (- 1))]])"
proof (intro conjI impI)
  show "Amount foldMsg = Some (- 1)" by (simp add: foldMsg_def pint_def)
next
  assume "gameLoop t0 obs ps g = (c, ps1, g1)"
  from gameLoop_loopEffect [OF this] obtain new lg where
    "conn ps1 = conn ps @ new" "stdout g1 = stdout g @ lg"
    "\<forall>p\<in>set new. \<exists>n. betAmount p = Some n \<and> (0 < n \<or> n = - 1)"
    "\<forall>p\<in>set (sendingLines lg). \<exists>n. betAmount p = Some n \<and> (0 < n \<or> n = - 1)"
    unfolding loopEffect_def by blast
  then show "\<exists>new lg. conn ps1 = conn ps @ new \<and> stdout g1 = stdout g @ lg
          \<and> (\<forall>p\<in>set new \<union> set (sendingLines lg).
                \<exists>n. p = JObject [(''action'', JString ''bet''), (''amount'', JNumber n)]
                   \<and> (n < 0 \<longrightarrow> n = - 1))"
    by (fastforce simp: betAmount_Some)
next
  assume "managePlayerSession ident a g = (ret, ps2, g2)"
  from session_payloads [OF this] obtain lg where
    lg: "stdout g2 = stdout g @ lg"
      "\<forall>p\<in>set (conn ps2) \<union> set (sendingLines lg).
                 p = registrationPayload ident \<or> p = joinPayload
               \<or> (\<exists>n. betAmount p = Some n \<and> (0 < n \<or> n = - 1))"
    by blast
  have "\<forall>n. json_field ''amount'' p = Some (JNumber n) \<longrightarrow> n < 0 \<longrightarrow> n = - 1"
    if "p \<in> set (conn ps2) \<union> set (sendingLines lg)" for p
  proof -
    from lg(2) that consider "p = registrationPayload ident" | "p = joinPayload"
      | n where "betAmount p = Some n" "0 < n \<or> n = - 1" by blast
    then show ?thesis
    proof cases
      case 1
      then show ?thesis by (simp add: registrationPayload_def)
    next
      case 2
      then show ?thesis by (simp add: joinPayload_def)
    next
      case 3
      then show ?thesis by (auto simp: betAmount_Some)
    qed
  qed
  with lg(1) show "\<exists>lg. stdout g2 = stdout g @ lg
          \<and> (\<forall>p\<in>set (conn ps2) \<union> set (sendingLines lg).
                \<forall>n. json_field ''amount'' p = Some (JNumber n) \<longrightarrow> n < 0 \<longrightarrow> n = - 1)"
    by blast
next
  assume h: "since t0 (now ob) \<le> gameActivityTimeout
      \<and> incoming ob = Line l \<and> unmarshal l = Inr resp
      \<and> Type resp = ''action_player_bet''
      \<and> PlayerID (Player (State resp)) = username ps
      \<and> (hasPerformedAllIn ps \<or> Chips (Player (State resp)) \<le> 0)
      \<and> outgoing ob = SendOk
      \<and> gameLoopBody t0 ob ps g = (c', ps', g')"
  let ?g0 = "logVerbose ps (LogReceived l) g"
  from h bet_turn_pass [of t0 ob l resp ps g]
  have b: "onActionPlayerBet resp SendOk ps ?g0 = (c', ps', g')" by simp
  from h have me: "PlayerID (Player (State resp)) = username ps"
    and f: "hasPerformedAllIn ps \<or> Chips (Player (State resp)) \<le> 0" by simp_all
  from fold_sent [OF me f b]
  show "conn ps' = conn ps @ [JObject [(''action'', JString ''bet''), (''amount'', JNumber (- 1))]]"
    by simp
qed

theorem every_fold_is_minus_one_witness:
  "(case gameLoop 0 [\<lparr>now = 5, incoming = Line (betTurn ''p7'' 0), outgoing = SendOk\<rparr>,
                     \<lparr>now = 9, incoming = Line (betTurn ''p7'' 70), outgoing = SendOk\<rparr>,
                     \<lparr>now = 11, incoming = Line (betTurn ''p7'' 7), outgoing = SendOk\<rparr>]
           sessionP7 zeroGlobals of
      (c, ps1, g1) \<Rightarrow>
        conn ps1 = [JObject [(''action'', JString ''bet''), (''amount'', JNumber (- 1))],
                    JObject [(''action'', JString ''bet''), (''amount'', JNumber 70)],
                    JObject [(''action'', JString ''bet''), (''amount'', JNumber (- 1))]]
      \<and> list_all (\<lambda>p. \<exists>n. p = JObject [(''action'', JString ''bet''), (''amount'', JNumber n)]
                           \<and> (n < 0 \<longrightarrow> n = - 1)) (conn ps1))"
proof -
  let ?obs = "[\<lparr>now = 5, incoming = Line (betTurn ''p7'' 0), outgoing = SendOk\<rparr>,
               \<lparr>now = 9, incoming = Line (betTurn ''p7'' 70), outgoing = SendOk\<rparr>,
               \<lparr>now = 11, incoming = Line (betTurn ''p7'' 7), outgoing = SendOk\<rparr>]"
  obtain c ps1 g1 where r: "gameLoop 0 ?obs sessionP7 zeroGlobals = (c, ps1, g1)"
    by (cases "gameLoop 0 ?obs sessionP7 zeroGlobals")
  note t = every_fold_is_minus_one [of 0 ?obs sessionP7 zeroGlobals c ps1 g1,
      THEN conjunct2, THEN conjunct1, rule_format, OF r]
  then obtain new lg where "conn ps1 = conn sessionP7 @ new"
    "\<forall>p\<in>set new \<union> set (sendingLines lg).
        \<exists>n. p = JObject [(''action'', JString ''bet''), (''amount'', JNumber n)]
           \<and> (n < 0 \<longrightarrow> n = - 1)"
    by blast
  then have a: "list_all (\<lambda>p. \<exists>n. p = JObject [(''action'', JString ''bet''), (''amount'', JNumber n)]
                           \<and> (n < 0 \<longrightarrow> n = - 1)) (conn ps1)"
    by (simp add: sessionP7_def list_all_iff)
  have "conn ps1 = [JObject [(''action'', JString ''bet''), (''amount'', JNumber (- 1))],
                    JObject [(''action'', JString ''bet''), (''amount'', JNumber 70)],
                    JObject [(''action'', JString ''bet''), (''amount'', JNumber (- 1))]]"
    using r
    by (auto simp: gameLoopBody_def since_def gameActivityTimeout_def second_def
      readServerMessage_def unmarshal_betTurn betResponse_def onResponse_def
      onActionPlayerBet_def sessionP7_def Let_def sendJSON_def logVerbose_eq marshal_fold
      marshal_bet zeroGlobals_def simp del: marshal.simps)
  with a show ?thesis unfolding r by simp
qed

subsection \<open>The registration response\<close>



subsection \<open>The stop signal of the attack workers\<close>

lemma attackStep_closed:
  assumes "attackStep e s = Some s1" and "stopClosed s"
  shows "stopClosed s1 \<and> requestsSent s1 = requestsSent s
       \<and> length (workers s1) = length (workers s)
       \<and> (\<forall>i. (if completesOf i e then 1 else 0)
                + (if i < length (workers s1) \<and> workers s1 ! i = InFlight then 1 else 0)
              \<le> (if i < length (workers s) \<and> workers s ! i = InFlight then 1 else (0::nat)))"
  using assms
  by (cases e)
    (auto simp: mainTick_def workerSelect_def workerCompletes_def nth_list_update
      split: if_splits get_result.splits)

lemma attackRun_closed:
  assumes "attackRun s sched = Some s1" and "stopClosed s"
  shows "stopClosed s1 \<and> requestsSent s1 = requestsSent s
       \<and> (\<forall>i. length (filter (completesOf i) sched)
              \<le> (if i < length (workers s) \<and> workers s ! i = InFlight then 1 else 0))"
  using assms
proof (induction sched arbitrary: s)
  case Nil
  then show ?case by simp
next
  case (Cons e es)
  then obtain s2 where e: "attackStep e s = Some s2" and r: "attackRun s2 es = Some s1"
    by (auto split: option.splits)
  note st = attackStep_closed [OF e Cons.prems(2)]
  then have c2: "stopClosed s2" by simp
  note ih = Cons.IH [OF r c2]
  have "length (filter (completesOf i) (e # es))
              \<le> (if i < length (workers s) \<and> workers s ! i = InFlight then 1 else 0)" for i
  proof -
    have "length (filter (completesOf i) (e # es))
            = (if completesOf i e then 1 else 0) + length (filter (completesOf i) es)"
      by simp
    also have "\<dots> \<le> (if completesOf i e then 1 else 0)
                + (if i < length (workers s2) \<and> workers s2 ! i = InFlight then 1 else 0)"
      using ih by simp
    also have "\<dots> \<le> (if i < length (workers s) \<and> workers s ! i = InFlight then 1 else 0)"
      using st by blast
    finally show ?thesis .
  qed
  with st ih show ?case by simp
qed

lemma attackRun_returned:
  assumes "attackRun s sched = Some s1" and "i < length (workers s)"
    and "workers s ! i = Returned"
  shows "i < length (workers s1) \<and> workers s1 ! i = Returned \<and> filter (eventOf i) sched = []"
  using assms
proof (induction sched arbitrary: s)
  case Nil
  then show ?case by simp
next
  case (Cons e es)
  then obtain s2 where e: "attackStep e s = Some s2" and r: "attackRun s2 es = Some s1"
    by (auto split: option.splits)
  from e Cons.prems(2,3) have "i < length (workers s2) \<and> workers s2 ! i = Returned \<and> \<not> eventOf i e"
    by (cases e)
      (auto simp: mainTick_def workerSelect_def workerCompletes_def nth_list_update
        split: if_splits get_result.splits)
  with Cons.IH [OF r] show ?case by simp
qed

text \<open>
  C9. From any state of the attack, along any schedule: a worker at the top of its loop
  looks at the one shared stop signal first; when the signal is closed it returns
  without a request, otherwise it counts and starts one. A worker that has returned
  takes no further step, so it starts no request after it has observed the signal.
  Once \<open>main\<close> has closed the signal, which it does at the first tick that finds the
  clock after the deadline, no worker starts a request any more (the counter of
  requests sent stays), and each worker sees at most one request come back, and only
  if that request was in flight at the close.
\<close>

theorem stop_signal_is_cooperative:
  assumes "attackRun s sched = Some s1" and "i < length (workers s)"
  shows "(workers s ! i = AtSelect \<longrightarrow>
            workerSelect i s =
              (if stopClosed s then Some (s\<lparr>workers := (workers s)[i := Returned]\<rparr>)
               else Some (s\<lparr>requestsSent := requestsSent s + 1,
                            workers := (workers s)[i := InFlight]\<rparr>)))
       \<and> (workers s ! i = Returned \<longrightarrow>
            workers s1 ! i = Returned \<and> filter (eventOf i) sched = []
          \<and> workerSelect i s = None \<and> workerCompletes i r s = None)
       \<and> (stopClosed s \<longrightarrow>
            stopClosed s1 \<and> requestsSent s1 = requestsSent s
          \<and> length (filter (completesOf i) sched)
              \<le> (if workers s ! i = InFlight then 1 else 0))
       \<and> (\<not> stopClosed s \<longrightarrow>
            mainTick t s = Some (s\<lparr>stopClosed := (t > attackEndTime s)\<rparr>))"
proof (intro conjI impI)
  assume "workers s ! i = AtSelect"
  with assms(2) show "workerSelect i s =
              (if stopClosed s then Some (s\<lparr>workers := (workers s)[i := Returned]\<rparr>)
               else Some (s\<lparr>requestsSent := requestsSent s + 1,
                            workers := (workers s)[i := InFlight]\<rparr>))"
    by (simp add: workerSelect_def)
next
  assume r: "workers s ! i = Returned"
  from attackRun_returned [OF assms r]
  show "workers s1 ! i = Returned" and "filter (eventOf i) sched = []" by simp_all
  from r show "workerSelect i s = None" by (simp add: workerSelect_def)
  from r show "workerCompletes i r s = None" by (simp add: workerCompletes_def)
next
  assume c: "stopClosed s"
  note cl = attackRun_closed [OF assms(1) c]
  from cl show "stopClosed s1" and "requestsSent s1 = requestsSent s" by simp_all
  from cl have "length (filter (completesOf i) sched)
      \<le> (if i < length (workers s) \<and> workers s ! i = InFlight then 1 else 0)"
    by blast
  with assms(2)
  show "length (filter (completesOf i) sched) \<le> (if workers s ! i = InFlight then 1 else 0)"
    by simp
next
  assume "\<not> stopClosed s"
  then show "mainTick t s = Some (s\<lparr>stopClosed := (t > attackEndTime s)\<rparr>)"
    by (simp add: mainTick_def)
qed

lemma example_before:
  "attackRun (attackStart 2 0) exampleBefore =
     Some \<lparr>stopClosed = True, workers = [InFlight, InFlight], attackEndTime = 30000000000,
           requestsSent = 3, successfulHits = 1, failedHits = 0\<rparr>"
  by (simp add: attackStart_def exampleBefore_def mainTick_def workerSelect_def
      workerCompletes_def attackDurationSeconds_def second_def numeral_2_eq_2)

lemma example_after:
  "attackRun \<lparr>stopClosed = True, workers = [InFlight, InFlight], attackEndTime = 30000000000,
           requestsSent = 3, successfulHits = 1, failedHits = 0\<rparr> exampleAfter =
     Some \<lparr>stopClosed = True, workers = [Returned, Returned], attackEndTime = 30000000000,
           requestsSent = 3, successfulHits = 1, failedHits = 2\<rparr>"
  by (simp add: exampleAfter_def mainTick_def workerSelect_def workerCompletes_def)

theorem stop_signal_is_cooperative_witness:
  "attackRun (attackStart 2 0) exampleBefore =
     Some \<lparr>stopClosed = True, workers = [InFlight, InFlight], attackEndTime = 30000000000,
           requestsSent = 3, successfulHits = 1, failedHits = 0\<rparr>
 \<and> attackRun \<lparr>stopClosed = True, workers = [InFlight, InFlight], attackEndTime = 30000000000,
           requestsSent = 3, successfulHits = 1, failedHits = 0\<rparr> exampleAfter =
     Some \<lparr>stopClosed = True, workers = [Returned, Returned], attackEndTime = 30000000000,
           requestsSent = 3, successfulHits = 1, failedHits = 2\<rparr>
 \<and> length (filter (completesOf 0) exampleAfter) \<le> 1
 \<and> length (filter (completesOf 1) exampleAfter) \<le> 1"
proof -
  let ?s = "\<lparr>stopClosed = True, workers = [InFlight, InFlight], attackEndTime = 30000000000,
           requestsSent = 3, successfulHits = 1, failedHits = 0\<rparr>"
  have "length (filter (completesOf 0) exampleAfter) \<le> 1"
    using stop_signal_is_cooperative [OF example_after, of 0] by simp
  moreover have "length (filter (completesOf 1) exampleAfter) \<le> 1"
    using stop_signal_is_cooperative [OF example_after, of 1] by simp
  ultimately show ?thesis using example_before example_after by simp
qed

end
